theory Spec2Isabelle
  imports Complex_Main "HOL-Library.Word" "HOL-Library.Multiset"
begin

unbundle bit_operations_syntax

section \<open>Data model of \<open>xbmc/windowing/WinSystem.cpp\<close>\<close>

text \<open>
  The C++ types \<open>int\<close> and \<open>uint32_t\<close> are 32-bit words; a value of type \<open>int\<close> is
  compared through its two's complement reading (\<open>sint\<close>). An \<open>unsigned int\<close> loop index
  is a \<open>nat\<close> (vectors and the store have fewer than \<open>2^32\<close> elements), and the cast
  \<open>(int)addindex\<close> is \<open>word_of_nat\<close>. A \<open>float\<close> refresh rate is the real number it
  denotes: the development covers finite rates (no NaN), and \<open>==\<close> and \<open><\<close> on them are
  those of the reals. An arithmetic operation on two \<open>float\<close> values yields the \<open>float\<close>
  nearest to the exact result; \<open>float32_round\<close> below is that rounding.
\<close>

type_synonym c_int = "32 word"
type_synonym uint32_t = "32 word"

text \<open>The fields of \<open>RESOLUTION_INFO\<close> that the functions below read.\<close>

record RESOLUTION_INFO =
  iScreenWidth :: c_int
  iScreenHeight :: c_int
  dwFlags :: uint32_t
  fRefreshRate :: real

record RESOLUTION_WHR =
  width :: c_int
  height :: c_int
  flags :: c_int
  ResInfo_Index :: c_int

record REFRESHRATE =
  RefreshRate :: real
  ResInfo_Index :: c_int

text \<open>
  \<open>CDisplaySettings::GetInstance()\<close> is the display-settings store. Its class is declared
  elsewhere; the two member functions called here are the fields of this record.
\<close>

record CDisplaySettings =
  GetResolutionInfo :: "nat \<Rightarrow> RESOLUTION_INFO"
  ResolutionInfoSize :: nat

section \<open>Rounding to \<open>float\<close>\<close>

text \<open>
  A \<open>float\<close> is an IEEE 754 binary32 number: 24 significant bits, the least exponent
  \<open>-126\<close>. Around a real \<open>x\<close> with \<open>2^e \<le> |x| < 2^(e+1)\<close> the \<open>float\<close> values are the
  multiples of \<open>2^(e-23)\<close> (of \<open>2^(-149)\<close> below \<open>2^(-126)\<close>); \<open>float32_ulp\<close> is that
  spacing. \<open>float32_round\<close> takes a real to the nearest multiple, and to the one with an
  even multiplier when two are equally near. Results beyond the largest \<open>float\<close> are not
  covered.
\<close>

definition round_half_even :: "real \<Rightarrow> int" where
  "round_half_even y =
     (let f = \<lfloor>y\<rfloor>
      in if y - of_int f < 1 / 2 then f
         else if 1 / 2 < y - of_int f then f + 1
         else if even f then f else f + 1)"

definition float32_ulp :: "real \<Rightarrow> real" where
  "float32_ulp x =
     (let e = max \<lfloor>log 2 \<bar>x\<bar>\<rfloor> (- 126)
      in if 23 \<le> e then 2 ^ nat (e - 23) else 1 / 2 ^ nat (23 - e))"

definition float32_round :: "real \<Rightarrow> real" where
  "float32_round x =
     (if x = 0 then 0 else of_int (round_half_even (x / float32_ulp x)) * float32_ulp x)"

section \<open>The resolution comparator\<close>

definition resSortPredicate :: "RESOLUTION_WHR \<Rightarrow> RESOLUTION_WHR \<Rightarrow> bool" where
  "resSortPredicate i j \<longleftrightarrow>
     (width i <s width j
      \<or> (width i = width j \<and> height i <s height j)
      \<or> (width i = width j \<and> height i = height j \<and> flags i <s flags j))"

text \<open>Two entries are equivalent in the ordering when neither is less than the other.\<close>

definition resEquiv :: "RESOLUTION_WHR \<Rightarrow> RESOLUTION_WHR \<Rightarrow> bool" where
  "resEquiv i j \<longleftrightarrow> \<not> resSortPredicate i j \<and> \<not> resSortPredicate j i"

section \<open>\<open>std::sort\<close>\<close>

text \<open>
  \<open>sort(first, last, lt)\<close> of the C++ standard library rearranges its range into an
  order in which no element is \<open>lt\<close>-less than an earlier one. It is library code; it
  is rendered here as insertion sort (each element in turn is put before the first element
  of the sorted part that it is less than), and the theorems below use only that the
  result is a rearrangement of the input.
\<close>

fun std_insert :: "('a \<Rightarrow> 'a \<Rightarrow> bool) \<Rightarrow> 'a \<Rightarrow> 'a list \<Rightarrow> 'a list" where
  "std_insert lt x [] = [x]"
| "std_insert lt x (y # ys) =
     (if lt x y then x # y # ys else y # std_insert lt x ys)"

definition std_sort :: "('a \<Rightarrow> 'a \<Rightarrow> bool) \<Rightarrow> 'a list \<Rightarrow> 'a list" where
  "std_sort lt xs = foldl (\<lambda>sorted x. std_insert lt x sorted) [] xs"

section \<open>The resolution catalog\<close>

text \<open>
  \<open>D3DPRESENTFLAG_MODEMASK\<close>, \<open>RES_DESKTOP\<close> and \<open>RES_CUSTOM\<close> are constants of headers
  that are not part of this file; every function that uses one takes it as its first
  argument.

  \<open>AddResolution_loop\<close> is the \<open>for\<close> loop of \<open>AddResolution\<close>, entered with \<open>idx = 1\<close>.
  It yields \<open>Some\<close> of the vector at the \<open>return\<close> inside the loop and \<open>None\<close> when the
  loop runs to its end.
\<close>

function AddResolution_loop ::
  "uint32_t \<Rightarrow> c_int \<Rightarrow> c_int \<Rightarrow> c_int \<Rightarrow> real \<Rightarrow> nat \<Rightarrow> real \<Rightarrow>
   RESOLUTION_WHR list \<Rightarrow> nat \<Rightarrow> RESOLUTION_WHR list option" where
  "AddResolution_loop D3DPRESENTFLAG_MODEMASK w h f refreshrate addindex bestRefreshrate
     resolutions idx =
     (if idx < length resolutions then
        if width (resolutions ! idx) = w
           \<and> height (resolutions ! idx) = h
           \<and> (flags (resolutions ! idx) AND D3DPRESENTFLAG_MODEMASK) = f
        then
          Some (if bestRefreshrate > 0 \<and> refreshrate = bestRefreshrate
                then resolutions[idx := (resolutions ! idx)
                       \<lparr>RESOLUTION_WHR.ResInfo_Index := word_of_nat addindex\<rparr>]
                else resolutions)
        else AddResolution_loop D3DPRESENTFLAG_MODEMASK w h f refreshrate addindex
               bestRefreshrate resolutions (idx + 1)
      else None)"
  by pat_completeness auto
termination
  by (relation "measure (\<lambda>(m, w, h, f, r, a, b, resolutions, idx). length resolutions - idx)")
     auto

declare AddResolution_loop.simps [simp del]

definition AddResolution ::
  "uint32_t \<Rightarrow> CDisplaySettings \<Rightarrow> RESOLUTION_WHR list \<Rightarrow> nat \<Rightarrow> real \<Rightarrow>
   RESOLUTION_WHR list" where
  "AddResolution D3DPRESENTFLAG_MODEMASK ds resolutions addindex bestRefreshrate =
     (let resInfo = GetResolutionInfo ds addindex;
          w = iScreenWidth resInfo;
          h = iScreenHeight resInfo;
          f = dwFlags resInfo AND D3DPRESENTFLAG_MODEMASK;
          refreshrate = fRefreshRate resInfo
      in case AddResolution_loop D3DPRESENTFLAG_MODEMASK w h f refreshrate addindex
                bestRefreshrate resolutions 1 of
           Some resolutions' \<Rightarrow> resolutions'
         | None \<Rightarrow>
             resolutions @ [\<lparr>width = w, height = h, flags = f,
                             RESOLUTION_WHR.ResInfo_Index = word_of_nat addindex\<rparr>])"

text \<open>The \<open>for\<close> loop of \<open>ScreenResolutions\<close>, and the function itself.\<close>

function ScreenResolutions_loop ::
  "uint32_t \<Rightarrow> CDisplaySettings \<Rightarrow> real \<Rightarrow> nat \<Rightarrow> RESOLUTION_WHR list \<Rightarrow>
   RESOLUTION_WHR list" where
  "ScreenResolutions_loop D3DPRESENTFLAG_MODEMASK ds refreshrate idx resolutions =
     (if idx < ResolutionInfoSize ds then
        ScreenResolutions_loop D3DPRESENTFLAG_MODEMASK ds refreshrate (idx + 1)
          (AddResolution D3DPRESENTFLAG_MODEMASK ds resolutions idx refreshrate)
      else resolutions)"
  by pat_completeness auto
termination
  by (relation "measure (\<lambda>(m, ds, r, idx, resolutions). ResolutionInfoSize ds - idx)") auto

declare ScreenResolutions_loop.simps [simp del]

definition ScreenResolutions ::
  "nat \<Rightarrow> uint32_t \<Rightarrow> CDisplaySettings \<Rightarrow> real \<Rightarrow> RESOLUTION_WHR list" where
  "ScreenResolutions RES_CUSTOM D3DPRESENTFLAG_MODEMASK ds refreshrate =
     std_sort resSortPredicate
       (ScreenResolutions_loop D3DPRESENTFLAG_MODEMASK ds refreshrate RES_CUSTOM [])"

text \<open>The uniqueness key of a catalog entry and of a raw record.\<close>

definition whr_key :: "uint32_t \<Rightarrow> RESOLUTION_WHR \<Rightarrow> c_int \<times> c_int \<times> c_int" where
  "whr_key D3DPRESENTFLAG_MODEMASK r =
     (width r, height r, flags r AND D3DPRESENTFLAG_MODEMASK)"

definition info_key :: "uint32_t \<Rightarrow> RESOLUTION_INFO \<Rightarrow> c_int \<times> c_int \<times> c_int" where
  "info_key D3DPRESENTFLAG_MODEMASK r =
     (iScreenWidth r, iScreenHeight r, dwFlags r AND D3DPRESENTFLAG_MODEMASK)"

section \<open>Refresh rates\<close>

subsection \<open>The refresh rates of a mode\<close>

text \<open>
  \<open>AddRefreshRate_loop\<close> is the \<open>for\<close> loop of \<open>AddRefreshRate\<close>: \<open>True\<close> at the
  \<open>return\<close> inside the loop, \<open>False\<close> when the loop runs to its end.
\<close>

function AddRefreshRate_loop :: "REFRESHRATE list \<Rightarrow> real \<Rightarrow> nat \<Rightarrow> bool" where
  "AddRefreshRate_loop refreshrates rate idx =
     (if idx < length refreshrates then
        if RefreshRate (refreshrates ! idx) = rate then True
        else AddRefreshRate_loop refreshrates rate (idx + 1)
      else False)"
  by pat_completeness auto
termination
  by (relation "measure (\<lambda>(refreshrates, rate, idx). length refreshrates - idx)") auto

declare AddRefreshRate_loop.simps [simp del]

definition AddRefreshRate ::
  "CDisplaySettings \<Rightarrow> REFRESHRATE list \<Rightarrow> nat \<Rightarrow> REFRESHRATE list" where
  "AddRefreshRate ds refreshrates addindex =
     (let rate = fRefreshRate (GetResolutionInfo ds addindex)
      in if AddRefreshRate_loop refreshrates rate 0 then refreshrates
         else refreshrates @ [\<lparr>RefreshRate = rate,
                                REFRESHRATE.ResInfo_Index = word_of_nat addindex\<rparr>])"

definition rrSortPredicate :: "REFRESHRATE \<Rightarrow> REFRESHRATE \<Rightarrow> bool" where
  "rrSortPredicate i j \<longleftrightarrow> RefreshRate i < RefreshRate j"

function RefreshRates_loop ::
  "uint32_t \<Rightarrow> CDisplaySettings \<Rightarrow> c_int \<Rightarrow> c_int \<Rightarrow> uint32_t \<Rightarrow> nat \<Rightarrow>
   REFRESHRATE list \<Rightarrow> REFRESHRATE list" where
  "RefreshRates_loop D3DPRESENTFLAG_MODEMASK ds w h fl idx refreshrates =
     (if idx < ResolutionInfoSize ds then
        RefreshRates_loop D3DPRESENTFLAG_MODEMASK ds w h fl (idx + 1)
          (if iScreenWidth (GetResolutionInfo ds idx) = w
              \<and> iScreenHeight (GetResolutionInfo ds idx) = h
              \<and> (dwFlags (GetResolutionInfo ds idx) AND D3DPRESENTFLAG_MODEMASK)
                  = (fl AND D3DPRESENTFLAG_MODEMASK)
           then AddRefreshRate ds refreshrates idx
           else refreshrates)
      else refreshrates)"
  by pat_completeness auto
termination
  by (relation "measure (\<lambda>(m, ds, w, h, fl, idx, rr). ResolutionInfoSize ds - idx)") auto

declare RefreshRates_loop.simps [simp del]

definition RefreshRates ::
  "nat \<Rightarrow> uint32_t \<Rightarrow> CDisplaySettings \<Rightarrow> c_int \<Rightarrow> c_int \<Rightarrow> uint32_t \<Rightarrow>
   REFRESHRATE list" where
  "RefreshRates RES_DESKTOP D3DPRESENTFLAG_MODEMASK ds w h fl =
     std_sort rrSortPredicate
       (RefreshRates_loop D3DPRESENTFLAG_MODEMASK ds w h fl RES_DESKTOP [])"

text \<open>The test that \<open>RefreshRates\<close> applies to the record at \<open>idx\<close>.\<close>

definition matches_target ::
  "uint32_t \<Rightarrow> CDisplaySettings \<Rightarrow> c_int \<Rightarrow> c_int \<Rightarrow> uint32_t \<Rightarrow> nat \<Rightarrow> bool" where
  "matches_target D3DPRESENTFLAG_MODEMASK ds w h fl idx \<longleftrightarrow>
     iScreenWidth (GetResolutionInfo ds idx) = w
     \<and> iScreenHeight (GetResolutionInfo ds idx) = h
     \<and> (dwFlags (GetResolutionInfo ds idx) AND D3DPRESENTFLAG_MODEMASK)
         = (fl AND D3DPRESENTFLAG_MODEMASK)"

text \<open>
  Record \<open>i\<close> is the first record from \<open>RES_DESKTOP\<close> on that matches the target and has
  its refresh rate.
\<close>

definition first_with_rate ::
  "nat \<Rightarrow> uint32_t \<Rightarrow> CDisplaySettings \<Rightarrow> c_int \<Rightarrow> c_int \<Rightarrow> uint32_t \<Rightarrow> nat \<Rightarrow> bool" where
  "first_with_rate RES_DESKTOP D3DPRESENTFLAG_MODEMASK ds w h fl i \<longleftrightarrow>
     RES_DESKTOP \<le> i
     \<and> matches_target D3DPRESENTFLAG_MODEMASK ds w h fl i
     \<and> (\<forall>j. RES_DESKTOP \<le> j \<and> j < i \<and> matches_target D3DPRESENTFLAG_MODEMASK ds w h fl j
            \<longrightarrow> fRefreshRate (GetResolutionInfo ds j) \<noteq> fRefreshRate (GetResolutionInfo ds i))"

text \<open>
  The loop invariant of \<open>RefreshRates\<close> before the iteration for \<open>idx\<close>: the rates
  collected so far are pairwise different, every collected entry comes from the first
  matching record with its rate, and the rate of every matching record before \<open>idx\<close> has
  been collected.
\<close>

definition rr_inv ::
  "nat \<Rightarrow> uint32_t \<Rightarrow> CDisplaySettings \<Rightarrow> c_int \<Rightarrow> c_int \<Rightarrow> uint32_t \<Rightarrow> nat \<Rightarrow>
   REFRESHRATE list \<Rightarrow> bool" where
  "rr_inv RD M ds w h fl idx rr \<longleftrightarrow>
     distinct (map RefreshRate rr)
     \<and> (\<forall>e. e \<in> set rr \<longrightarrow>
           (\<exists>i. i < idx \<and> first_with_rate RD M ds w h fl i
                \<and> RefreshRate e = fRefreshRate (GetResolutionInfo ds i)
                \<and> REFRESHRATE.ResInfo_Index e = word_of_nat i))
     \<and> (\<forall>i. RD \<le> i \<and> i < idx \<and> matches_target M ds w h fl i
           \<longrightarrow> fRefreshRate (GetResolutionInfo ds i) \<in> RefreshRate ` set rr)"

subsection \<open>The default refresh rate\<close>

text \<open>
  How a call can end without returning a value: its behaviour is undefined, or it throws
  an exception (named by a string). No function of this file has a \<open>throw\<close>.
\<close>

datatype failure = UndefinedBehaviour | Thrown string

text \<open>
  \<open>DefaultRefreshRate\<close> reads \<open>rates[0]\<close> before anything else, with no test of the size.
  On an empty vector \<open>operator[]\<close> reads outside the vector, and the behaviour of the call
  is undefined. \<open>DefaultRefreshRate_loop\<close> is the \<open>for\<close> loop, with \<open>break\<close> as the branch
  that returns at once; the subtraction \<open>targetfps - rates[i].RefreshRate\<close> is one on
  \<open>float\<close> values and rounds.
\<close>

function DefaultRefreshRate_loop ::
  "real \<Rightarrow> REFRESHRATE list \<Rightarrow> nat \<Rightarrow> REFRESHRATE \<Rightarrow> real \<Rightarrow> REFRESHRATE" where
  "DefaultRefreshRate_loop targetfps rates i bestmatch bestfitness =
     (if i < length rates then
        let fitness = \<bar>float32_round (targetfps - RefreshRate (rates ! i))\<bar>
        in if bestfitness < 0 \<or> fitness < bestfitness then
             if fitness = 0 then rates ! i
             else DefaultRefreshRate_loop targetfps rates (i + 1) (rates ! i) fitness
           else DefaultRefreshRate_loop targetfps rates (i + 1) bestmatch bestfitness
      else bestmatch)"
  by pat_completeness auto
termination
  by (relation "measure (\<lambda>(t, rates, i, bm, bf). length rates - i)") auto

declare DefaultRefreshRate_loop.simps [simp del]

definition DefaultRefreshRate ::
  "nat \<Rightarrow> CDisplaySettings \<Rightarrow> REFRESHRATE list \<Rightarrow> failure + REFRESHRATE" where
  "DefaultRefreshRate RES_DESKTOP ds rates =
     (case rates of
        [] \<Rightarrow> Inl UndefinedBehaviour
      | bestmatch # _ \<Rightarrow>
          Inr (DefaultRefreshRate_loop
                 (fRefreshRate (GetResolutionInfo ds RES_DESKTOP)) rates 0 bestmatch (- 1)))"

text \<open>The fitness that the loop computes for an entry.\<close>

definition fitness_of :: "real \<Rightarrow> REFRESHRATE \<Rightarrow> real" where
  "fitness_of targetfps r = \<bar>float32_round (targetfps - RefreshRate r)\<bar>"

text \<open>
  Position \<open>k\<close> is the first best among the first \<open>n\<close> entries: no entry before
  position \<open>n\<close> has a smaller fitness, and every entry before \<open>k\<close> has a greater one.
\<close>

definition first_best :: "real \<Rightarrow> REFRESHRATE list \<Rightarrow> nat \<Rightarrow> nat \<Rightarrow> bool" where
  "first_best t rates n k \<longleftrightarrow>
     k < n
     \<and> (\<forall>j. j < n \<longrightarrow> fitness_of t (rates ! k) \<le> fitness_of t (rates ! j))
     \<and> (\<forall>j. j < k \<longrightarrow> fitness_of t (rates ! k) < fitness_of t (rates ! j))"

section \<open>The render loop registry\<close>

text \<open>
  The state of a \<open>CWinSystemBase\<close> as far as the render loop goes: the vector
  \<open>m_renderLoopClients\<close> and a log of what the object did, in order. The log records the
  calls that leave this file (\<open>MessagePump\<close>, a client's \<open>FrameMove\<close>) and the
  construction and destruction of a \<open>CSingleLock\<close> on \<open>m_renderLoopSection\<close>. A client
  is the pointer \<open>IRenderLoop*\<close>, of an arbitrary type \<open>'c\<close>. What \<open>MessagePump\<close> and
  \<open>FrameMove\<close> do is outside this file; they are taken to leave the vector as it is.
\<close>

datatype 'c event = EvMessagePump | EvFrameMove 'c | EvLock | EvUnlock

record 'c CWinSystemBase =
  m_renderLoopClients :: "'c list"
  events :: "'c event list"

definition emit :: "'c event \<Rightarrow> 'c CWinSystemBase \<Rightarrow> 'c CWinSystemBase" where
  "emit e s = s\<lparr>events := events s @ [e]\<rparr>"

definition RegisterRenderLoop :: "'c \<Rightarrow> 'c CWinSystemBase \<Rightarrow> 'c CWinSystemBase" where
  "RegisterRenderLoop client s =
     (let s1 = emit EvLock s;
          s2 = s1\<lparr>m_renderLoopClients := m_renderLoopClients s1 @ [client]\<rparr>
      in emit EvUnlock s2)"

definition UnregisterRenderLoop :: "'c \<Rightarrow> 'c CWinSystemBase \<Rightarrow> 'c CWinSystemBase" where
  "UnregisterRenderLoop client s =
     (let s1 = emit EvLock s;
          s2 = s1\<lparr>m_renderLoopClients := remove1 client (m_renderLoopClients s1)\<rparr>
      in emit EvUnlock s2)"

text \<open>The iteration of \<open>DriveRenderLoop\<close> over the vector, from \<open>begin()\<close> to \<open>end()\<close>.\<close>

fun DriveRenderLoop_loop :: "'c list \<Rightarrow> 'c CWinSystemBase \<Rightarrow> 'c CWinSystemBase" where
  "DriveRenderLoop_loop [] s = s"
| "DriveRenderLoop_loop (i # rest) s = DriveRenderLoop_loop rest (emit (EvFrameMove i) s)"

definition DriveRenderLoop :: "'c CWinSystemBase \<Rightarrow> 'c CWinSystemBase" where
  "DriveRenderLoop s =
     (let s1 = emit EvMessagePump s;
          s2 = emit EvLock s1;
          s3 = DriveRenderLoop_loop (m_renderLoopClients s2) s2
      in emit EvUnlock s3)"

text \<open>
  How many \<open>CSingleLock\<close> objects are alive after a log, starting from \<open>n\<close>; and whether
  the lock is held at the moment of the \<open>k\<close>-th entry of a log.
\<close>

fun held_after :: "nat \<Rightarrow> 'c event list \<Rightarrow> nat" where
  "held_after n [] = n"
| "held_after n (EvLock # es) = held_after (n + 1) es"
| "held_after n (EvUnlock # es) = held_after (n - 1) es"
| "held_after n (EvMessagePump # es) = held_after n es"
| "held_after n (EvFrameMove c # es) = held_after n es"

definition lock_held_at :: "'c event list \<Rightarrow> nat \<Rightarrow> bool" where
  "lock_held_at es k \<longleftrightarrow> 0 < held_after 0 (take k es)"

text \<open>The calls that leave the object, without the lock entries.\<close>

fun is_call :: "'c event \<Rightarrow> bool" where
  "is_call EvMessagePump = True"
| "is_call (EvFrameMove c) = True"
| "is_call EvLock = False"
| "is_call EvUnlock = False"

section \<open>HDR status\<close>

text \<open>
  What the platform answers during one call of \<open>GetHDRDisplayStatus\<close>: whether each
  display-configuration call returned \<open>ERROR_SUCCESS\<close>, whether each \<open>malloc\<close> returned a
  non-null pointer, and the byte that \<open>DisplayConfigGetDeviceInfo\<close> left at
  \<open>request[20]\<close>.
\<close>

record platform =
  GetDisplayConfigBufferSizes_success :: bool
  pathsArray_nonnull :: bool
  modesArray_nonnull :: bool
  QueryDisplayConfig_success :: bool
  DisplayConfigGetDeviceInfo_success :: bool
  request_20 :: "8 word"

definition GetHDRDisplayStatus :: "platform \<Rightarrow> c_int" where
  "GetHDRDisplayStatus p =
     (if GetDisplayConfigBufferSizes_success p then
        if pathsArray_nonnull p \<and> modesArray_nonnull p then
          if QueryDisplayConfig_success p then
            if DisplayConfigGetDeviceInfo_success p then
              if request_20 p = 0xD0 then 0
              else if request_20 p = 0xD1 then 1
              else if request_20 p = 0xD3 then 2
              else 0
            else 0
          else 0
        else 0
      else 0)"

definition IsDisplayHDREnabled :: "platform \<Rightarrow> bool" where
  "IsDisplayHDREnabled p \<longleftrightarrow> GetHDRDisplayStatus p = 2"

section \<open>Example stores\<close>

text \<open>
  Stores used in the examples below. First, one whose records all are 1920 x 1080 at
  60 Hz, with 19 records; and one with three 1920 x 1080 records from \<open>RES_CUSTOM\<close> on,
  at 60, 59.94 and 60 Hz.
\<close>

definition two_equal_modes :: CDisplaySettings where
  "two_equal_modes =
     \<lparr>GetResolutionInfo =
        (\<lambda>i. \<lparr>iScreenWidth = 1920, iScreenHeight = 1080, dwFlags = 0, fRefreshRate = 60\<rparr>),
      ResolutionInfoSize = 19\<rparr>"

definition three_modes_1080 :: "nat \<Rightarrow> CDisplaySettings" where
  "three_modes_1080 RES_CUSTOM =
     \<lparr>GetResolutionInfo =
        (\<lambda>i. if i = RES_CUSTOM + 1
             then \<lparr>iScreenWidth = 1920, iScreenHeight = 1080, dwFlags = 0,
                   fRefreshRate = 5994 / 100\<rparr>
             else \<lparr>iScreenWidth = 1920, iScreenHeight = 1080, dwFlags = 0,
                   fRefreshRate = 60\<rparr>),
      ResolutionInfoSize = RES_CUSTOM + 3\<rparr>"

text \<open>Two stores whose records all have the refresh rate 52 Hz, and 60 Hz.\<close>

definition desktop_52 :: CDisplaySettings where
  "desktop_52 =
     \<lparr>GetResolutionInfo =
        (\<lambda>i. \<lparr>iScreenWidth = 1920, iScreenHeight = 1080, dwFlags = 0, fRefreshRate = 52\<rparr>),
      ResolutionInfoSize = 18\<rparr>"

definition desktop_60 :: CDisplaySettings where
  "desktop_60 =
     \<lparr>GetResolutionInfo =
        (\<lambda>i. \<lparr>iScreenWidth = 1920, iScreenHeight = 1080, dwFlags = 0, fRefreshRate = 60\<rparr>),
      ResolutionInfoSize = 18\<rparr>"

text \<open>
  A store of 20 records: 1920 x 1080 at 24 Hz before position 16, then 1920 x 1080 at
  60 Hz, at 50 Hz and at 60 Hz again, and 1280 x 720 at 30 Hz.
\<close>

definition refresh_rates_example :: CDisplaySettings where
  "refresh_rates_example =
     \<lparr>GetResolutionInfo =
        (\<lambda>i. if i < 16
               then \<lparr>iScreenWidth = 1920, iScreenHeight = 1080, dwFlags = 0, fRefreshRate = 24\<rparr>
             else if i = 17
               then \<lparr>iScreenWidth = 1920, iScreenHeight = 1080, dwFlags = 0, fRefreshRate = 50\<rparr>
             else if i = 19
               then \<lparr>iScreenWidth = 1280, iScreenHeight = 720, dwFlags = 0, fRefreshRate = 30\<rparr>
             else \<lparr>iScreenWidth = 1920, iScreenHeight = 1080, dwFlags = 0, fRefreshRate = 60\<rparr>),
      ResolutionInfoSize = 20\<rparr>"

section \<open>Properties of the comparator\<close>

lemma sless_irrefl: "\<not> (a::c_int) <s a"
  by (simp add: word_sless_alt)

lemma sless_trans: "(a::c_int) <s b \<Longrightarrow> b <s c \<Longrightarrow> a <s c"
  by (simp add: word_sless_alt)

lemma sless_asym: "(a::c_int) <s b \<Longrightarrow> \<not> b <s a"
  by (simp add: word_sless_alt)

lemma sless_total: "\<not> (a::c_int) <s b \<Longrightarrow> \<not> b <s a \<Longrightarrow> a = b"
proof -
  assume "\<not> a <s b" and "\<not> b <s a"
  then have "sint a = sint b"
    by (simp add: word_sless_alt)
  then show "a = b"
    by (rule signed_word_eqI)
qed

lemma resSortPredicate_irrefl: "\<not> resSortPredicate i i"
  by (simp add: resSortPredicate_def sless_irrefl)

lemma resSortPredicate_asym: "resSortPredicate i j \<Longrightarrow> \<not> resSortPredicate j i"
  unfolding resSortPredicate_def
  using sless_asym sless_irrefl by metis

lemma resSortPredicate_trans:
  "resSortPredicate i j \<Longrightarrow> resSortPredicate j k \<Longrightarrow> resSortPredicate i k"
  unfolding resSortPredicate_def
  using sless_trans by metis

lemma resEquiv_iff:
  "resEquiv i j \<longleftrightarrow> width i = width j \<and> height i = height j \<and> flags i = flags j"
  unfolding resEquiv_def resSortPredicate_def
  using sless_total sless_irrefl by metis

text \<open>
  Claim C2. \<open>resSortPredicate\<close> orders entries by width ascending, then height
  ascending, then flags ascending (each compared as a signed \<open>int\<close>). It is a strict
  weak ordering: it is irreflexive, asymmetric and transitive; equivalence (neither entry
  less than the other) is transitive and means equal width, height and flags; and for
  every pair of entries exactly one of less, greater and equivalent holds.
\<close>

theorem resSortPredicate_strict_weak_ordering:
  "(resSortPredicate i j \<longleftrightarrow>
      (sint (width i) < sint (width j)
       \<or> (width i = width j
          \<and> (sint (height i) < sint (height j)
             \<or> (height i = height j \<and> sint (flags i) < sint (flags j))))))
   \<and> \<not> resSortPredicate i i
   \<and> (resSortPredicate i j \<longrightarrow> \<not> resSortPredicate j i)
   \<and> (resSortPredicate i j \<and> resSortPredicate j k \<longrightarrow> resSortPredicate i k)
   \<and> (resEquiv i j \<and> resEquiv j k \<longrightarrow> resEquiv i k)
   \<and> (resEquiv i j \<longleftrightarrow> width i = width j \<and> height i = height j \<and> flags i = flags j)
   \<and> ((resSortPredicate i j \<and> \<not> resSortPredicate j i \<and> \<not> resEquiv i j)
      \<or> (\<not> resSortPredicate i j \<and> resSortPredicate j i \<and> \<not> resEquiv i j)
      \<or> (\<not> resSortPredicate i j \<and> \<not> resSortPredicate j i \<and> resEquiv i j))"
proof -
  have order: "resSortPredicate i j \<longleftrightarrow>
      (sint (width i) < sint (width j)
       \<or> (width i = width j
          \<and> (sint (height i) < sint (height j)
             \<or> (height i = height j \<and> sint (flags i) < sint (flags j)))))"
    unfolding resSortPredicate_def word_sless_alt by blast
  have asym: "resSortPredicate i j \<longrightarrow> \<not> resSortPredicate j i"
    using resSortPredicate_asym by blast
  have trans: "resSortPredicate i j \<and> resSortPredicate j k \<longrightarrow> resSortPredicate i k"
    using resSortPredicate_trans by blast
  have equiv_trans: "resEquiv i j \<and> resEquiv j k \<longrightarrow> resEquiv i k"
    by (simp add: resEquiv_iff)
  have one: "(resSortPredicate i j \<and> \<not> resSortPredicate j i \<and> \<not> resEquiv i j)
      \<or> (\<not> resSortPredicate i j \<and> resSortPredicate j i \<and> \<not> resEquiv i j)
      \<or> (\<not> resSortPredicate i j \<and> \<not> resSortPredicate j i \<and> resEquiv i j)"
    using asym resSortPredicate_asym [of j i] unfolding resEquiv_def by blast
  from order resSortPredicate_irrefl asym trans equiv_trans resEquiv_iff one
  show ?thesis by blast
qed

theorem resSortPredicate_strict_weak_ordering_witness:
  "resSortPredicate
     \<lparr>width = 1280, height = 720, flags = 0, RESOLUTION_WHR.ResInfo_Index = 17\<rparr>
     \<lparr>width = 1920, height = 1080, flags = 0, RESOLUTION_WHR.ResInfo_Index = 18\<rparr>
   \<and> resSortPredicate
     \<lparr>width = 1920, height = 1080, flags = 0, RESOLUTION_WHR.ResInfo_Index = 18\<rparr>
     \<lparr>width = 1920, height = 1080, flags = 1, RESOLUTION_WHR.ResInfo_Index = 19\<rparr>
   \<and> resSortPredicate
     \<lparr>width = 1280, height = 720, flags = 0, RESOLUTION_WHR.ResInfo_Index = 17\<rparr>
     \<lparr>width = 1920, height = 1080, flags = 1, RESOLUTION_WHR.ResInfo_Index = 19\<rparr>
   \<and> \<not> resSortPredicate
     \<lparr>width = 1920, height = 1080, flags = 0, RESOLUTION_WHR.ResInfo_Index = 18\<rparr>
     \<lparr>width = 1280, height = 720, flags = 0, RESOLUTION_WHR.ResInfo_Index = 17\<rparr>
   \<and> resEquiv
     \<lparr>width = 1920, height = 1080, flags = 0, RESOLUTION_WHR.ResInfo_Index = 18\<rparr>
     \<lparr>width = 1920, height = 1080, flags = 0, RESOLUTION_WHR.ResInfo_Index = 20\<rparr>
   \<and> resEquiv
     \<lparr>width = 1920, height = 1080, flags = 0, RESOLUTION_WHR.ResInfo_Index = 20\<rparr>
     \<lparr>width = 1920, height = 1080, flags = 0, RESOLUTION_WHR.ResInfo_Index = 21\<rparr>
   \<and> resEquiv
     \<lparr>width = 1920, height = 1080, flags = 0, RESOLUTION_WHR.ResInfo_Index = 18\<rparr>
     \<lparr>width = 1920, height = 1080, flags = 0, RESOLUTION_WHR.ResInfo_Index = 21\<rparr>"
proof -
  let ?a = "\<lparr>width = 1280, height = 720, flags = 0, RESOLUTION_WHR.ResInfo_Index = 17\<rparr>"
  let ?b = "\<lparr>width = 1920, height = 1080, flags = 0, RESOLUTION_WHR.ResInfo_Index = 18\<rparr>"
  let ?c = "\<lparr>width = 1920, height = 1080, flags = 1, RESOLUTION_WHR.ResInfo_Index = 19\<rparr>"
  let ?d = "\<lparr>width = 1920, height = 1080, flags = 0, RESOLUTION_WHR.ResInfo_Index = 20\<rparr>"
  let ?e = "\<lparr>width = 1920, height = 1080, flags = 0, RESOLUTION_WHR.ResInfo_Index = 21\<rparr>"
  have ab: "resSortPredicate ?a ?b"
    by (simp add: resSortPredicate_def word_sless_alt)
  have bc: "resSortPredicate ?b ?c"
    by (simp add: resSortPredicate_def word_sless_alt)
  have bd: "resEquiv ?b ?d"
    by (simp add: resEquiv_def resSortPredicate_def word_sless_alt)
  have de: "resEquiv ?d ?e"
    by (simp add: resEquiv_def resSortPredicate_def word_sless_alt)
  from resSortPredicate_strict_weak_ordering [of ?a ?b ?c] ab bc
  have ac: "resSortPredicate ?a ?c" and nba: "\<not> resSortPredicate ?b ?a"
    by blast+
  from resSortPredicate_strict_weak_ordering [of ?b ?d ?e] bd de
  have be: "resEquiv ?b ?e"
    by blast
  from ab bc ac nba bd de be show ?thesis
    by blast
qed

section \<open>Properties of the resolution catalog\<close>


lemma mset_std_insert: "mset (std_insert lt x xs) = add_mset x (mset xs)"
  by (induction xs) simp_all

lemma mset_foldl_std_insert:
  "mset (foldl (\<lambda>sorted x. std_insert lt x sorted) acc xs) = mset acc + mset xs"
  by (induction xs arbitrary: acc) (simp_all add: mset_std_insert)

lemma mset_std_sort: "mset (std_sort lt xs) = mset xs"
  by (simp add: std_sort_def mset_foldl_std_insert)


lemma AddResolution_loop_None:
  "AddResolution_loop M w h f r a b rs idx = None \<longleftrightarrow>
     (\<forall>i. idx \<le> i \<and> i < length rs \<longrightarrow>
        \<not> (width (rs ! i) = w \<and> height (rs ! i) = h \<and> (flags (rs ! i) AND M) = f))"
proof (induction M w h f r a b rs idx rule: AddResolution_loop.induct)
  case (1 M w h f r a b rs idx)
  show ?case
  proof (cases "idx < length rs")
    case False
    then show ?thesis by (subst AddResolution_loop.simps) auto
  next
    case True
    show ?thesis
    proof (cases "width (rs ! idx) = w \<and> height (rs ! idx) = h \<and> (flags (rs ! idx) AND M) = f")
      case m: True
      with True show ?thesis
        by (subst AddResolution_loop.simps) auto
    next
      case m: False
      have "AddResolution_loop M w h f r a b rs idx = AddResolution_loop M w h f r a b rs (idx + 1)"
        using True m by (subst AddResolution_loop.simps) auto
      also have "\<dots> = None \<longleftrightarrow> (\<forall>i. idx + 1 \<le> i \<and> i < length rs \<longrightarrow>
        \<not> (width (rs ! i) = w \<and> height (rs ! i) = h \<and> (flags (rs ! i) AND M) = f))"
        using "1.IH" True m by blast
      also have "\<dots> \<longleftrightarrow> (\<forall>i. idx \<le> i \<and> i < length rs \<longrightarrow>
        \<not> (width (rs ! i) = w \<and> height (rs ! i) = h \<and> (flags (rs ! i) AND M) = f))"
        using m by (metis Suc_eq_plus1 Suc_leI le_neq_implies_less Suc_leD)
      finally show ?thesis .
    qed
  qed
qed

lemma AddResolution_loop_first:
  assumes "idx \<le> i" "i < length rs"
    and "width (rs ! i) = w \<and> height (rs ! i) = h \<and> (flags (rs ! i) AND M) = f"
    and "\<forall>j. idx \<le> j \<and> j < i \<longrightarrow>
        \<not> (width (rs ! j) = w \<and> height (rs ! j) = h \<and> (flags (rs ! j) AND M) = f)"
  shows "AddResolution_loop M w h f r a b rs idx =
     Some (if b > 0 \<and> r = b
           then rs[i := (rs ! i)\<lparr>RESOLUTION_WHR.ResInfo_Index := word_of_nat a\<rparr>] else rs)"
  using assms
proof (induction M w h f r a b rs idx rule: AddResolution_loop.induct)
  case (1 M w h f r a b rs idx)
  show ?case
  proof (cases "idx = i")
    case True
    with "1.prems" show ?thesis
      by (subst AddResolution_loop.simps) simp
  next
    case False
    with "1.prems" have lt: "idx < i" by simp
    with "1.prems" have nm: "\<not> (width (rs ! idx) = w \<and> height (rs ! idx) = h \<and> (flags (rs ! idx) AND M) = f)"
      by blast
    from lt "1.prems" have il: "idx < length rs" by simp
    have "AddResolution_loop M w h f r a b rs idx = AddResolution_loop M w h f r a b rs (idx + 1)"
      using il nm by (subst AddResolution_loop.simps) auto
    also have "\<dots> = Some (if b > 0 \<and> r = b
           then rs[i := (rs ! i)\<lparr>RESOLUTION_WHR.ResInfo_Index := word_of_nat a\<rparr>] else rs)"
    proof (rule "1.IH" [OF il nm])
      show "idx + 1 \<le> i" using lt by simp
      show "i < length rs" using "1.prems" by simp
      show "width (rs ! i) = w \<and> height (rs ! i) = h \<and> flags (rs ! i) AND M = f"
        using "1.prems" by simp
      show "\<forall>j. idx + 1 \<le> j \<and> j < i \<longrightarrow>
        \<not> (width (rs ! j) = w \<and> height (rs ! j) = h \<and> (flags (rs ! j) AND M) = f)"
        using "1.prems" by simp
    qed
    finally show ?thesis .
  qed
qed


lemma key_match:
  "whr_key M e = info_key M r \<longleftrightarrow>
     width e = iScreenWidth r \<and> height e = iScreenHeight r
     \<and> (flags e AND M) = (dwFlags r AND M)"
  by (simp add: whr_key_def info_key_def)

text \<open>
  Claim C3. Let the incoming record be \<open>GetResolutionInfo ds a\<close>, and let an entry be
  eligible when its position in the vector is at least 1. If \<open>i\<close> is the first eligible
  position whose entry has the record's key (width, height, masked flags), then
  \<open>AddResolution\<close> replaces the index of entry \<open>i\<close> by \<open>a\<close> when \<open>bestRefreshrate > 0\<close> and
  the record's refresh rate equals it, and returns the vector unchanged otherwise; in both
  cases the length, and width, height and flags of entry \<open>i\<close>, stay as they were. If no
  eligible entry has the record's key, it appends an entry with the record's width, height,
  masked flags and index \<open>a\<close>.
\<close>

theorem AddResolution_match_or_append:
  "(1 \<le> i \<and> i < length rs
      \<and> whr_key M (rs ! i) = info_key M (GetResolutionInfo ds a)
      \<and> (\<forall>j. 1 \<le> j \<and> j < i \<longrightarrow> whr_key M (rs ! j) \<noteq> info_key M (GetResolutionInfo ds a))
    \<longrightarrow> AddResolution M ds rs a b =
          (if 0 < b \<and> fRefreshRate (GetResolutionInfo ds a) = b
           then rs[i := (rs ! i)\<lparr>RESOLUTION_WHR.ResInfo_Index := word_of_nat a\<rparr>]
           else rs)
        \<and> length (AddResolution M ds rs a b) = length rs
        \<and> width (AddResolution M ds rs a b ! i) = width (rs ! i)
        \<and> height (AddResolution M ds rs a b ! i) = height (rs ! i)
        \<and> flags (AddResolution M ds rs a b ! i) = flags (rs ! i))
   \<and> ((\<forall>j. 1 \<le> j \<and> j < length rs \<longrightarrow>
          whr_key M (rs ! j) \<noteq> info_key M (GetResolutionInfo ds a))
    \<longrightarrow> AddResolution M ds rs a b =
          rs @ [\<lparr>width = iScreenWidth (GetResolutionInfo ds a),
                 height = iScreenHeight (GetResolutionInfo ds a),
                 flags = dwFlags (GetResolutionInfo ds a) AND M,
                 RESOLUTION_WHR.ResInfo_Index = word_of_nat a\<rparr>])"
proof (intro conjI impI)
  let ?r = "GetResolutionInfo ds a"
  assume m: "1 \<le> i \<and> i < length rs \<and> whr_key M (rs ! i) = info_key M ?r
      \<and> (\<forall>j. 1 \<le> j \<and> j < i \<longrightarrow> whr_key M (rs ! j) \<noteq> info_key M ?r)"
  have "AddResolution_loop M (iScreenWidth ?r) (iScreenHeight ?r) (dwFlags ?r AND M)
          (fRefreshRate ?r) a b rs 1 =
        Some (if b > 0 \<and> fRefreshRate ?r = b
           then rs[i := (rs ! i)\<lparr>RESOLUTION_WHR.ResInfo_Index := word_of_nat a\<rparr>] else rs)"
    using m by (intro AddResolution_loop_first) (simp_all add: key_match)
  then show eq: "AddResolution M ds rs a b =
          (if 0 < b \<and> fRefreshRate ?r = b
           then rs[i := (rs ! i)\<lparr>RESOLUTION_WHR.ResInfo_Index := word_of_nat a\<rparr>]
           else rs)"
    by (simp add: AddResolution_def Let_def)
  show "length (AddResolution M ds rs a b) = length rs"
    by (simp add: eq)
  show "width (AddResolution M ds rs a b ! i) = width (rs ! i)"
    using m by (simp add: eq)
  show "height (AddResolution M ds rs a b ! i) = height (rs ! i)"
    using m by (simp add: eq)
  show "flags (AddResolution M ds rs a b ! i) = flags (rs ! i)"
    using m by (simp add: eq)
next
  let ?r = "GetResolutionInfo ds a"
  assume n: "\<forall>j. 1 \<le> j \<and> j < length rs \<longrightarrow> whr_key M (rs ! j) \<noteq> info_key M ?r"
  have "AddResolution_loop M (iScreenWidth ?r) (iScreenHeight ?r) (dwFlags ?r AND M)
          (fRefreshRate ?r) a b rs 1 = None"
    using n by (simp add: AddResolution_loop_None key_match)
  then show "AddResolution M ds rs a b =
          rs @ [\<lparr>width = iScreenWidth ?r, height = iScreenHeight ?r,
                 flags = dwFlags ?r AND M,
                 RESOLUTION_WHR.ResInfo_Index = word_of_nat a\<rparr>]"
    by (simp add: AddResolution_def Let_def)
qed


theorem AddResolution_match_or_append_witness:
  "AddResolution 0x19
     \<lparr>GetResolutionInfo = (\<lambda>i. \<lparr>iScreenWidth = 1920, iScreenHeight = 1080, dwFlags = 0,
        fRefreshRate = 60\<rparr>), ResolutionInfoSize = 20\<rparr>
     [\<lparr>width = 1280, height = 720, flags = 0, RESOLUTION_WHR.ResInfo_Index = 17\<rparr>,
      \<lparr>width = 1920, height = 1080, flags = 0, RESOLUTION_WHR.ResInfo_Index = 18\<rparr>]
     19 60
   = [\<lparr>width = 1280, height = 720, flags = 0, RESOLUTION_WHR.ResInfo_Index = 17\<rparr>,
      \<lparr>width = 1920, height = 1080, flags = 0, RESOLUTION_WHR.ResInfo_Index = 19\<rparr>]
   \<and> AddResolution 0x19
     \<lparr>GetResolutionInfo = (\<lambda>i. \<lparr>iScreenWidth = 1920, iScreenHeight = 1080, dwFlags = 0,
        fRefreshRate = 60\<rparr>), ResolutionInfoSize = 20\<rparr>
     [\<lparr>width = 1280, height = 720, flags = 0, RESOLUTION_WHR.ResInfo_Index = 17\<rparr>,
      \<lparr>width = 1920, height = 1080, flags = 0, RESOLUTION_WHR.ResInfo_Index = 18\<rparr>]
     19 50
   = [\<lparr>width = 1280, height = 720, flags = 0, RESOLUTION_WHR.ResInfo_Index = 17\<rparr>,
      \<lparr>width = 1920, height = 1080, flags = 0, RESOLUTION_WHR.ResInfo_Index = 18\<rparr>]
   \<and> AddResolution 0x19
     \<lparr>GetResolutionInfo = (\<lambda>i. \<lparr>iScreenWidth = 1920, iScreenHeight = 1080, dwFlags = 0,
        fRefreshRate = 60\<rparr>), ResolutionInfoSize = 20\<rparr>
     [\<lparr>width = 1920, height = 1080, flags = 0, RESOLUTION_WHR.ResInfo_Index = 18\<rparr>]
     19 60
   = [\<lparr>width = 1920, height = 1080, flags = 0, RESOLUTION_WHR.ResInfo_Index = 18\<rparr>,
      \<lparr>width = 1920, height = 1080, flags = 0, RESOLUTION_WHR.ResInfo_Index = 19\<rparr>]"
proof -
  let ?ds = "\<lparr>GetResolutionInfo = (\<lambda>i. \<lparr>iScreenWidth = 1920, iScreenHeight = 1080,
        dwFlags = 0, fRefreshRate = 60\<rparr>), ResolutionInfoSize = 20\<rparr>"
  let ?e0 = "\<lparr>width = 1280, height = 720, flags = 0, RESOLUTION_WHR.ResInfo_Index = 17\<rparr>"
  let ?e1 = "\<lparr>width = 1920, height = 1080, flags = 0, RESOLUTION_WHR.ResInfo_Index = 18\<rparr>"
  have hit: "1 \<le> (1::nat) \<and> 1 < length [?e0, ?e1]
      \<and> whr_key 0x19 ([?e0, ?e1] ! 1) = info_key 0x19 (GetResolutionInfo ?ds 19)
      \<and> (\<forall>j. 1 \<le> j \<and> j < (1::nat) \<longrightarrow>
            whr_key 0x19 ([?e0, ?e1] ! j) \<noteq> info_key 0x19 (GetResolutionInfo ?ds 19))"
    by (simp add: whr_key_def info_key_def)
  have miss: "\<forall>j. 1 \<le> j \<and> j < length [?e1] \<longrightarrow>
      whr_key 0x19 ([?e1] ! j) \<noteq> info_key 0x19 (GetResolutionInfo ?ds 19)"
    by simp
  from AddResolution_match_or_append
    [of 1 "[?e0, ?e1]" "0x19" ?ds 19 60, THEN conjunct1, THEN mp, OF hit]
  have a: "AddResolution 0x19 ?ds [?e0, ?e1] 19 60 =
      [?e0, ?e1\<lparr>RESOLUTION_WHR.ResInfo_Index := 19\<rparr>]"
    by simp
  from AddResolution_match_or_append
    [of 1 "[?e0, ?e1]" "0x19" ?ds 19 50, THEN conjunct1, THEN mp, OF hit]
  have b: "AddResolution 0x19 ?ds [?e0, ?e1] 19 50 = [?e0, ?e1]"
    by simp
  from AddResolution_match_or_append
    [of 1 "[?e1]" "0x19" ?ds 19 60, THEN conjunct2, THEN mp, OF miss]
  have c: "AddResolution 0x19 ?ds [?e1] 19 60 =
      [?e1, \<lparr>width = 1920, height = 1080, flags = 0, RESOLUTION_WHR.ResInfo_Index = 19\<rparr>]"
    by simp
  from a b c show ?thesis by simp
qed

lemma in_set_tl_iff: "e \<in> set (tl rs) \<longleftrightarrow> (\<exists>i. 1 \<le> i \<and> i < length rs \<and> rs ! i = e)"
proof (cases rs)
  case Nil
  then show ?thesis by simp
next
  case (Cons x xs)
  have "e \<in> set xs \<longleftrightarrow> (\<exists>j. j < length xs \<and> xs ! j = e)"
    by (simp add: in_set_conv_nth)
  also have "\<dots> \<longleftrightarrow> (\<exists>i. 1 \<le> i \<and> i < length (x # xs) \<and> (x # xs) ! i = e)"
  proof
    assume "\<exists>j. j < length xs \<and> xs ! j = e"
    then obtain j where "j < length xs" "xs ! j = e" by blast
    then have "1 \<le> Suc j \<and> Suc j < length (x # xs) \<and> (x # xs) ! Suc j = e" by simp
    then show "\<exists>i. 1 \<le> i \<and> i < length (x # xs) \<and> (x # xs) ! i = e" by blast
  next
    assume "\<exists>i. 1 \<le> i \<and> i < length (x # xs) \<and> (x # xs) ! i = e"
    then obtain i where i: "1 \<le> i" "i < length (x # xs)" "(x # xs) ! i = e" by blast
    then obtain j where "i = Suc j" by (cases i) simp_all
    with i have "j < length xs \<and> xs ! j = e" by simp
    then show "\<exists>j. j < length xs \<and> xs ! j = e" by blast
  qed
  finally show ?thesis using Cons by simp
qed

lemma key_in_tl_iff:
  "k \<in> set (map (whr_key M) (tl rs)) \<longleftrightarrow>
     (\<exists>i. 1 \<le> i \<and> i < length rs \<and> whr_key M (rs ! i) = k)"
proof -
  have "k \<in> set (map (whr_key M) (tl rs)) \<longleftrightarrow> (\<exists>e. e \<in> set (tl rs) \<and> whr_key M e = k)"
    by auto
  also have "\<dots> \<longleftrightarrow> (\<exists>i. 1 \<le> i \<and> i < length rs \<and> whr_key M (rs ! i) = k)"
    unfolding in_set_tl_iff by blast
  finally show ?thesis .
qed

lemma whr_key_index_update [simp]:
  "whr_key M (e\<lparr>RESOLUTION_WHR.ResInfo_Index := n\<rparr>) = whr_key M e"
  by (simp add: whr_key_def)

lemma map_key_update:
  "map (whr_key M) (rs[i := (rs ! i)\<lparr>RESOLUTION_WHR.ResInfo_Index := n\<rparr>]) = map (whr_key M) rs"
proof (cases "i < length rs")
  case True
  then have "(map (whr_key M) rs)[i := whr_key M (rs ! i)] = map (whr_key M) rs"
    by (simp add: list_update_same_conv)
  then show ?thesis by (simp add: map_update)
next
  case False
  then show ?thesis by (simp add: list_update_beyond)
qed

lemma AddResolution_keys:
  "map (whr_key M) (AddResolution M ds rs a b) =
     (if info_key M (GetResolutionInfo ds a) \<in> set (map (whr_key M) (tl rs))
      then map (whr_key M) rs
      else map (whr_key M) rs @ [info_key M (GetResolutionInfo ds a)])"
proof -
  let ?r = "GetResolutionInfo ds a"
  let ?P = "\<lambda>i. 1 \<le> i \<and> i < length rs \<and> whr_key M (rs ! i) = info_key M ?r"
  show ?thesis
  proof (cases "\<exists>i. ?P i")
    case True
    define i where "i = (LEAST i. ?P i)"
    have Pi: "?P i" unfolding i_def using True by (rule LeastI_ex)
    have least: "\<forall>j. 1 \<le> j \<and> j < i \<longrightarrow> whr_key M (rs ! j) \<noteq> info_key M ?r"
    proof (intro allI impI)
      fix j assume j: "1 \<le> j \<and> j < i"
      show "whr_key M (rs ! j) \<noteq> info_key M ?r"
      proof
        assume "whr_key M (rs ! j) = info_key M ?r"
        with j Pi have "?P j" by simp
        then have "i \<le> j" unfolding i_def by (rule Least_le)
        with j show False by simp
      qed
    qed
    have "AddResolution_loop M (iScreenWidth ?r) (iScreenHeight ?r) (dwFlags ?r AND M)
          (fRefreshRate ?r) a b rs 1 =
        Some (if b > 0 \<and> fRefreshRate ?r = b
           then rs[i := (rs ! i)\<lparr>RESOLUTION_WHR.ResInfo_Index := word_of_nat a\<rparr>] else rs)"
      using Pi least by (intro AddResolution_loop_first) (simp_all add: key_match)
    then have "map (whr_key M) (AddResolution M ds rs a b) = map (whr_key M) rs"
      by (simp add: AddResolution_def Let_def map_key_update)
    moreover have "info_key M ?r \<in> set (map (whr_key M) (tl rs))"
      unfolding key_in_tl_iff using True .
    ultimately show ?thesis by simp
  next
    case False
    then have n: "\<forall>j. 1 \<le> j \<and> j < length rs \<longrightarrow> whr_key M (rs ! j) \<noteq> info_key M ?r"
      by blast
    have "AddResolution_loop M (iScreenWidth ?r) (iScreenHeight ?r) (dwFlags ?r AND M)
          (fRefreshRate ?r) a b rs 1 = None"
      using n by (simp add: AddResolution_loop_None key_match)
    then have "map (whr_key M) (AddResolution M ds rs a b) =
        map (whr_key M) rs @ [info_key M ?r]"
      by (simp add: AddResolution_def Let_def whr_key_def info_key_def and.assoc)
    moreover have "info_key M ?r \<notin> set (map (whr_key M) (tl rs))"
      unfolding key_in_tl_iff using False .
    ultimately show ?thesis by simp
  qed
qed

lemma AddResolution_distinct_tl:
  assumes "distinct (map (whr_key M) (tl rs))"
  shows "distinct (map (whr_key M) (tl (AddResolution M ds rs a b)))"
proof -
  have "distinct (tl (map (whr_key M) (AddResolution M ds rs a b)))"
    unfolding AddResolution_keys using assms
    by (cases rs) (simp_all add: map_tl)
  then show ?thesis by (simp add: map_tl)
qed

lemma AddResolution_hd:
  assumes "rs \<noteq> []"
  shows "AddResolution M ds rs a b \<noteq> []
    \<and> whr_key M (hd (AddResolution M ds rs a b)) = whr_key M (hd rs)"
proof -
  from assms obtain x xs where rs: "rs = x # xs" by (cases rs) simp_all
  have k: "map (whr_key M) (AddResolution M ds rs a b) \<noteq> []
      \<and> hd (map (whr_key M) (AddResolution M ds rs a b)) = whr_key M x"
    unfolding AddResolution_keys by (simp add: rs)
  then have ne: "AddResolution M ds rs a b \<noteq> []"
    by auto
  from k hd_map [OF ne, of "whr_key M"] ne show ?thesis
    by (simp add: rs)
qed

lemma AddResolution_Nil:
  "AddResolution M ds [] a b =
     [\<lparr>width = iScreenWidth (GetResolutionInfo ds a),
       height = iScreenHeight (GetResolutionInfo ds a),
       flags = dwFlags (GetResolutionInfo ds a) AND M,
       RESOLUTION_WHR.ResInfo_Index = word_of_nat a\<rparr>]"
  by (simp add: AddResolution_def Let_def AddResolution_loop.simps)

lemma ScreenResolutions_loop_distinct_tl:
  "distinct (map (whr_key M) (tl rs)) \<Longrightarrow>
   distinct (map (whr_key M) (tl (ScreenResolutions_loop M ds b idx rs)))"
proof (induction M ds b idx rs rule: ScreenResolutions_loop.induct)
  case (1 M ds b idx rs)
  show ?case
  proof (cases "idx < ResolutionInfoSize ds")
    case True
    then have "ScreenResolutions_loop M ds b idx rs =
        ScreenResolutions_loop M ds b (idx + 1) (AddResolution M ds rs idx b)"
      by (subst ScreenResolutions_loop.simps) simp
    with "1.IH" [OF True] AddResolution_distinct_tl [OF "1.prems"] show ?thesis by simp
  next
    case False
    then have "ScreenResolutions_loop M ds b idx rs = rs"
      by (subst ScreenResolutions_loop.simps) simp
    with "1.prems" show ?thesis by simp
  qed
qed

lemma ScreenResolutions_loop_hd:
  "rs \<noteq> [] \<Longrightarrow>
   ScreenResolutions_loop M ds b idx rs \<noteq> []
   \<and> whr_key M (hd (ScreenResolutions_loop M ds b idx rs)) = whr_key M (hd rs)"
proof (induction M ds b idx rs rule: ScreenResolutions_loop.induct)
  case (1 M ds b idx rs)
  show ?case
  proof (cases "idx < ResolutionInfoSize ds")
    case True
    then have "ScreenResolutions_loop M ds b idx rs =
        ScreenResolutions_loop M ds b (idx + 1) (AddResolution M ds rs idx b)"
      by (subst ScreenResolutions_loop.simps) simp
    with "1.IH" [OF True] AddResolution_hd [OF "1.prems"] show ?thesis by simp
  next
    case False
    then have "ScreenResolutions_loop M ds b idx rs = rs"
      by (subst ScreenResolutions_loop.simps) simp
    with "1.prems" show ?thesis by simp
  qed
qed

lemma ScreenResolutions_loop_from_Nil:
  "ScreenResolutions_loop M ds b RC [] = [] \<and> \<not> RC < ResolutionInfoSize ds
   \<or> RC < ResolutionInfoSize ds \<and> ScreenResolutions_loop M ds b RC [] \<noteq> []
      \<and> whr_key M (hd (ScreenResolutions_loop M ds b RC [])) =
          info_key M (GetResolutionInfo ds RC)"
proof (cases "RC < ResolutionInfoSize ds")
  case False
  then show ?thesis by (subst ScreenResolutions_loop.simps) simp
next
  case True
  let ?e = "\<lparr>width = iScreenWidth (GetResolutionInfo ds RC),
       height = iScreenHeight (GetResolutionInfo ds RC),
       flags = dwFlags (GetResolutionInfo ds RC) AND M,
       RESOLUTION_WHR.ResInfo_Index = word_of_nat RC\<rparr>"
  have "ScreenResolutions_loop M ds b RC [] = ScreenResolutions_loop M ds b (RC + 1) [?e]"
    using True by (subst ScreenResolutions_loop.simps) (simp add: AddResolution_Nil)
  moreover have "ScreenResolutions_loop M ds b (RC + 1) [?e] \<noteq> []
   \<and> whr_key M (hd (ScreenResolutions_loop M ds b (RC + 1) [?e])) = whr_key M (hd [?e])"
    by (rule ScreenResolutions_loop_hd) simp
  moreover have "whr_key M (hd [?e]) = info_key M (GetResolutionInfo ds RC)"
    by (simp add: whr_key_def info_key_def and.assoc)
  ultimately show ?thesis using True by simp
qed

lemma distinct_filter_le_1:
  "distinct (map f xs) \<Longrightarrow> length (filter (\<lambda>e. f e = k) xs) \<le> 1"
proof (induction xs)
  case Nil
  show ?case by simp
next
  case (Cons a xs)
  show ?case
  proof (cases "f a = k")
    case True
    with Cons.prems have "k \<notin> f ` set xs" by simp
    then have "\<forall>x\<in>set xs. f x \<noteq> k" by blast
    then have "filter (\<lambda>e. f e = k) xs = []" by (simp add: filter_empty_conv)
    with True show ?thesis by simp
  next
    case False
    with Cons show ?thesis by simp
  qed
qed

lemma length_filter_mset_eq:
  "mset xs = mset ys \<Longrightarrow> length (filter P xs) = length (filter P ys)"
  by (metis mset_filter size_mset)

lemma two_equal_modes_loop:
  "ScreenResolutions_loop 0x19 two_equal_modes 0 17 [] =
     [\<lparr>width = 1920, height = 1080, flags = 0, RESOLUTION_WHR.ResInfo_Index = 17\<rparr>,
      \<lparr>width = 1920, height = 1080, flags = 0, RESOLUTION_WHR.ResInfo_Index = 18\<rparr>]"
  by (simp add: ScreenResolutions_loop.simps AddResolution_def AddResolution_loop.simps
      Let_def two_equal_modes_def)

lemma two_equal_modes_catalog:
  "ScreenResolutions 17 0x19 two_equal_modes 0 =
     [\<lparr>width = 1920, height = 1080, flags = 0, RESOLUTION_WHR.ResInfo_Index = 17\<rparr>,
      \<lparr>width = 1920, height = 1080, flags = 0, RESOLUTION_WHR.ResInfo_Index = 18\<rparr>]"
  by (simp add: ScreenResolutions_def two_equal_modes_loop std_sort_def resSortPredicate_def
      word_sless_alt)

text \<open>
  Claim C1, as stated, fails: with two records of the same width, height and flags from
  \<open>RES_CUSTOM\<close> on, the catalog has two entries with the same key.
\<close>

theorem ScreenResolutions_duplicate_key_counterexample:
  "ScreenResolutions 17 0x19 two_equal_modes 0 =
     [\<lparr>width = 1920, height = 1080, flags = 0, RESOLUTION_WHR.ResInfo_Index = 17\<rparr>,
      \<lparr>width = 1920, height = 1080, flags = 0, RESOLUTION_WHR.ResInfo_Index = 18\<rparr>]
   \<and> whr_key 0x19 (ScreenResolutions 17 0x19 two_equal_modes 0 ! 0) =
      whr_key 0x19 (ScreenResolutions 17 0x19 two_equal_modes 0 ! 1)"
  by (simp add: two_equal_modes_catalog whr_key_def)

text \<open>
  Claim C1, amended. In the vector built by the loop of \<open>ScreenResolutions\<close>, the entries
  after the first one have pairwise different keys (width, height, masked flags); the
  first entry, built from the record at \<open>RES_CUSTOM\<close>, is never compared with an incoming
  record. The returned vector is a rearrangement of that vector. So a key occurs at most
  twice in the returned vector, and a key that occurs twice is the key of the record at
  \<open>RES_CUSTOM\<close>.
\<close>

theorem ScreenResolutions_keys_at_most_twice:
  "distinct (map (whr_key M) (tl (ScreenResolutions_loop M ds b RC [])))
   \<and> mset (ScreenResolutions RC M ds b) = mset (ScreenResolutions_loop M ds b RC [])
   \<and> length (filter (\<lambda>e. whr_key M e = k) (ScreenResolutions RC M ds b)) \<le> 2
   \<and> (length (filter (\<lambda>e. whr_key M e = k) (ScreenResolutions RC M ds b)) = 2
        \<longrightarrow> RC < ResolutionInfoSize ds \<and> k = info_key M (GetResolutionInfo ds RC))"
proof -
  let ?L = "ScreenResolutions_loop M ds b RC []"
  let ?R = "ScreenResolutions RC M ds b"
  let ?n = "\<lambda>xs. length (filter (\<lambda>e. whr_key M e = k) xs)"
  have d: "distinct (map (whr_key M) (tl ?L))"
    by (rule ScreenResolutions_loop_distinct_tl) simp
  have m: "mset ?R = mset ?L"
    by (simp add: ScreenResolutions_def mset_std_sort)
  have n: "?n ?R = ?n ?L"
    using m by (rule length_filter_mset_eq)
  have tl_le: "?n (tl ?L) \<le> 1"
    using d by (rule distinct_filter_le_1)
  have bound: "?n ?L \<le> 2
      \<and> (?n ?L = 2 \<longrightarrow> RC < ResolutionInfoSize ds \<and> k = info_key M (GetResolutionInfo ds RC))"
  proof (cases ?L)
    case Nil
    then show ?thesis by simp
  next
    case (Cons x xs)
    with ScreenResolutions_loop_from_Nil [of M ds b RC]
    have rc: "RC < ResolutionInfoSize ds"
      and kx: "whr_key M x = info_key M (GetResolutionInfo ds RC)"
      by simp_all
    from tl_le Cons have "?n xs \<le> 1" by simp
    with Cons rc kx show ?thesis by (cases "whr_key M x = k") simp_all
  qed
  from d m n bound show ?thesis by simp
qed

theorem ScreenResolutions_keys_at_most_twice_witness:
  "length (filter (\<lambda>e. whr_key 0x19 e = (1920, 1080, 0))
      (ScreenResolutions 17 0x19 two_equal_modes 0)) = 2
   \<and> 17 < ResolutionInfoSize two_equal_modes
   \<and> (1920, 1080, 0) = info_key 0x19 (GetResolutionInfo two_equal_modes 17)"
proof -
  have "length (filter (\<lambda>e. whr_key 0x19 e = (1920, 1080, 0))
      (ScreenResolutions 17 0x19 two_equal_modes 0)) = 2"
    by (simp add: two_equal_modes_catalog whr_key_def)
  with ScreenResolutions_keys_at_most_twice [of "0x19" two_equal_modes 0 17 "(1920, 1080, 0)"] show ?thesis
    by blast
qed

text \<open>
  Claim C4. For the three records (1920, 1080, 0, 60.0), (1920, 1080, 0, 59.94) and
  (1920, 1080, 0, 60.0) from \<open>RES_CUSTOM\<close> on and the preferred rate 59.94, the loop of
  \<open>ScreenResolutions\<close> yields two entries: first the entry of the first record, with that
  record's index, and then one more entry, whose index is that of the 59.94 record.
\<close>

theorem ScreenResolutions_loop_three_modes_1080:
  "ScreenResolutions_loop M (three_modes_1080 RES_CUSTOM) (5994 / 100) RES_CUSTOM [] =
     [\<lparr>width = 1920, height = 1080, flags = 0,
       RESOLUTION_WHR.ResInfo_Index = word_of_nat RES_CUSTOM\<rparr>,
      \<lparr>width = 1920, height = 1080, flags = 0,
       RESOLUTION_WHR.ResInfo_Index = word_of_nat (RES_CUSTOM + 1)\<rparr>]
   \<and> fRefreshRate (GetResolutionInfo (three_modes_1080 RES_CUSTOM) RES_CUSTOM) = 60
   \<and> fRefreshRate (GetResolutionInfo (three_modes_1080 RES_CUSTOM) (RES_CUSTOM + 1)) = 5994 / 100
   \<and> fRefreshRate (GetResolutionInfo (three_modes_1080 RES_CUSTOM) (RES_CUSTOM + 2)) = 60"
  by (simp add: ScreenResolutions_loop.simps AddResolution_def AddResolution_loop.simps
      Let_def three_modes_1080_def)

section \<open>Properties of the refresh rate collection\<close>

lemma AddRefreshRate_loop_iff:
  "AddRefreshRate_loop rr rate idx \<longleftrightarrow>
     (\<exists>i. idx \<le> i \<and> i < length rr \<and> RefreshRate (rr ! i) = rate)"
proof (induction "length rr - idx" arbitrary: idx)
  case 0
  then show ?case by (subst AddRefreshRate_loop.simps) auto
next
  case (Suc n)
  then have il: "idx < length rr" by simp
  show ?case
  proof (cases "RefreshRate (rr ! idx) = rate")
    case True
    with il show ?thesis by (subst AddRefreshRate_loop.simps) auto
  next
    case False
    have "AddRefreshRate_loop rr rate idx = AddRefreshRate_loop rr rate (idx + 1)"
      using il False by (subst AddRefreshRate_loop.simps) simp
    also have "\<dots> \<longleftrightarrow> (\<exists>i. idx + 1 \<le> i \<and> i < length rr \<and> RefreshRate (rr ! i) = rate)"
      using Suc.hyps(2) by (intro Suc.hyps(1)) simp
    also have "\<dots> \<longleftrightarrow> (\<exists>i. idx \<le> i \<and> i < length rr \<and> RefreshRate (rr ! i) = rate)"
      using False by (metis Suc_eq_plus1 Suc_leI le_neq_implies_less Suc_leD)
    finally show ?thesis .
  qed
qed

lemma AddRefreshRate_loop_0:
  "AddRefreshRate_loop rr rate 0 \<longleftrightarrow> rate \<in> RefreshRate ` set rr"
proof -
  have "rate \<in> RefreshRate ` set rr \<longleftrightarrow> (\<exists>i. i < length rr \<and> RefreshRate (rr ! i) = rate)"
  proof
    assume "rate \<in> RefreshRate ` set rr"
    then obtain e where "e \<in> set rr" "RefreshRate e = rate" by blast
    then show "\<exists>i. i < length rr \<and> RefreshRate (rr ! i) = rate"
      by (metis in_set_conv_nth)
  next
    assume "\<exists>i. i < length rr \<and> RefreshRate (rr ! i) = rate"
    then obtain i where "i < length rr" "RefreshRate (rr ! i) = rate" by blast
    then show "rate \<in> RefreshRate ` set rr"
      by (metis imageI nth_mem)
  qed
  then show ?thesis by (simp add: AddRefreshRate_loop_iff)
qed

lemma AddRefreshRate_eq:
  "AddRefreshRate ds rr a =
     (if fRefreshRate (GetResolutionInfo ds a) \<in> RefreshRate ` set rr then rr
      else rr @ [\<lparr>RefreshRate = fRefreshRate (GetResolutionInfo ds a),
                  REFRESHRATE.ResInfo_Index = word_of_nat a\<rparr>])"
  by (simp add: AddRefreshRate_def Let_def AddRefreshRate_loop_0)

lemma rr_inv_step:
  assumes inv: "rr_inv RD M ds w h fl idx rr" and le: "RD \<le> idx"
  shows "rr_inv RD M ds w h fl (idx + 1)
           (if matches_target M ds w h fl idx then AddRefreshRate ds rr idx else rr)"
proof -
  let ?rate = "\<lambda>i. fRefreshRate (GetResolutionInfo ds i)"
  from inv have d: "distinct (map RefreshRate rr)"
    and src: "\<forall>e. e \<in> set rr \<longrightarrow>
           (\<exists>i. i < idx \<and> first_with_rate RD M ds w h fl i
                \<and> RefreshRate e = ?rate i \<and> REFRESHRATE.ResInfo_Index e = word_of_nat i)"
    and cov: "\<forall>i. RD \<le> i \<and> i < idx \<and> matches_target M ds w h fl i
           \<longrightarrow> ?rate i \<in> RefreshRate ` set rr"
    unfolding rr_inv_def by blast+
  have src': "\<forall>e. e \<in> set rr \<longrightarrow>
           (\<exists>i. i < idx + 1 \<and> first_with_rate RD M ds w h fl i
                \<and> RefreshRate e = ?rate i \<and> REFRESHRATE.ResInfo_Index e = word_of_nat i)"
    using src by (meson less_SucI Suc_eq_plus1 less_add_one less_trans)
  show ?thesis
  proof (cases "matches_target M ds w h fl idx \<and> ?rate idx \<notin> RefreshRate ` set rr")
    case True
    let ?e = "\<lparr>RefreshRate = ?rate idx, REFRESHRATE.ResInfo_Index = word_of_nat idx\<rparr>"
    have step: "(if matches_target M ds w h fl idx then AddRefreshRate ds rr idx else rr)
        = rr @ [?e]"
      using True by (simp add: AddRefreshRate_eq)
    have first: "first_with_rate RD M ds w h fl idx"
      unfolding first_with_rate_def using True le cov by metis
    have d': "distinct (map RefreshRate (rr @ [?e]))"
      using d True by simp
    have s': "\<forall>e. e \<in> set (rr @ [?e]) \<longrightarrow>
           (\<exists>i. i < idx + 1 \<and> first_with_rate RD M ds w h fl i
                \<and> RefreshRate e = ?rate i \<and> REFRESHRATE.ResInfo_Index e = word_of_nat i)"
    proof (intro allI impI)
      fix e assume "e \<in> set (rr @ [?e])"
      then consider "e \<in> set rr" | "e = ?e" by auto
      then show "\<exists>i. i < idx + 1 \<and> first_with_rate RD M ds w h fl i
                \<and> RefreshRate e = ?rate i \<and> REFRESHRATE.ResInfo_Index e = word_of_nat i"
      proof cases
        case 1
        with src' show ?thesis by blast
      next
        case 2
        with first have "idx < idx + 1 \<and> first_with_rate RD M ds w h fl idx
                \<and> RefreshRate e = ?rate idx \<and> REFRESHRATE.ResInfo_Index e = word_of_nat idx"
          by simp
        then show ?thesis by blast
      qed
    qed
    have c': "\<forall>i. RD \<le> i \<and> i < idx + 1 \<and> matches_target M ds w h fl i
           \<longrightarrow> ?rate i \<in> RefreshRate ` set (rr @ [?e])"
    proof (intro allI impI)
      fix i assume i: "RD \<le> i \<and> i < idx + 1 \<and> matches_target M ds w h fl i"
      show "?rate i \<in> RefreshRate ` set (rr @ [?e])"
      proof (cases "i = idx")
        case True
        then show ?thesis by simp
      next
        case False
        with i have "i < idx" by simp
        with i cov have "?rate i \<in> RefreshRate ` set rr" by blast
        then show ?thesis by auto
      qed
    qed
    from d' s' c' show ?thesis unfolding rr_inv_def step by blast
  next
    case False
    then have step: "(if matches_target M ds w h fl idx then AddRefreshRate ds rr idx else rr)
        = rr"
      by (auto simp: AddRefreshRate_eq)
    have c': "\<forall>i. RD \<le> i \<and> i < idx + 1 \<and> matches_target M ds w h fl i
           \<longrightarrow> ?rate i \<in> RefreshRate ` set rr"
    proof (intro allI impI)
      fix i assume i: "RD \<le> i \<and> i < idx + 1 \<and> matches_target M ds w h fl i"
      show "?rate i \<in> RefreshRate ` set rr"
      proof (cases "i = idx")
        case True
        with i False show ?thesis by blast
      next
        case neq: False
        with i have "i < idx" by simp
        with i cov show ?thesis by blast
      qed
    qed
    from d src' c' show ?thesis unfolding rr_inv_def step by blast
  qed
qed

lemma RefreshRates_loop_inv:
  assumes "rr_inv RD M ds w h fl idx rr" and "RD \<le> idx" and "idx \<le> ResolutionInfoSize ds"
  shows "rr_inv RD M ds w h fl (ResolutionInfoSize ds) (RefreshRates_loop M ds w h fl idx rr)"
  using assms
proof (induction "ResolutionInfoSize ds - idx" arbitrary: idx rr)
  case 0
  then have "idx = ResolutionInfoSize ds" by simp
  moreover from this have "RefreshRates_loop M ds w h fl idx rr = rr"
    by (subst RefreshRates_loop.simps) simp
  ultimately show ?case using "0.prems"(1) by simp
next
  case (Suc n)
  then have il: "idx < ResolutionInfoSize ds" by simp
  let ?rr = "if matches_target M ds w h fl idx then AddRefreshRate ds rr idx else rr"
  have "RefreshRates_loop M ds w h fl idx rr = RefreshRates_loop M ds w h fl (idx + 1) ?rr"
    using il by (subst RefreshRates_loop.simps) (simp add: matches_target_def)
  moreover have "rr_inv RD M ds w h fl (ResolutionInfoSize ds)
      (RefreshRates_loop M ds w h fl (idx + 1) ?rr)"
  proof (rule Suc.hyps(1))
    show "n = ResolutionInfoSize ds - (idx + 1)" using Suc.hyps(2) by simp
    show "rr_inv RD M ds w h fl (idx + 1) ?rr"
      using Suc.prems(1,2) by (rule rr_inv_step)
    show "RD \<le> idx + 1" using Suc.prems(2) by simp
    show "idx + 1 \<le> ResolutionInfoSize ds" using il by simp
  qed
  ultimately show ?case by simp
qed

lemma RefreshRates_loop_past_end:
  "ResolutionInfoSize ds \<le> idx \<Longrightarrow> RefreshRates_loop M ds w h fl idx rr = rr"
  by (subst RefreshRates_loop.simps) simp

lemma RefreshRates_loop_rr_inv:
  "rr_inv RD M ds w h fl (ResolutionInfoSize ds) (RefreshRates_loop M ds w h fl RD [])"
proof (cases "RD \<le> ResolutionInfoSize ds")
  case True
  have "rr_inv RD M ds w h fl RD []"
    unfolding rr_inv_def by simp
  then show ?thesis using True by (intro RefreshRates_loop_inv) simp_all
next
  case False
  then have "RefreshRates_loop M ds w h fl RD [] = []"
    by (intro RefreshRates_loop_past_end) simp
  moreover have "rr_inv RD M ds w h fl (ResolutionInfoSize ds) []"
    unfolding rr_inv_def using False by simp
  ultimately show ?thesis by simp
qed

lemma RefreshRates_loop_cong:
  assumes "\<forall>i. idx \<le> i \<longrightarrow> GetResolutionInfo ds' i = GetResolutionInfo ds i"
    and "ResolutionInfoSize ds' = ResolutionInfoSize ds"
  shows "RefreshRates_loop M ds' w h fl idx rr = RefreshRates_loop M ds w h fl idx rr"
  using assms
proof (induction "ResolutionInfoSize ds - idx" arbitrary: idx rr)
  case 0
  then have "ResolutionInfoSize ds \<le> idx" "ResolutionInfoSize ds' \<le> idx" by simp_all
  then show ?case by (simp add: RefreshRates_loop_past_end)
next
  case (Suc n)
  then have il: "idx < ResolutionInfoSize ds" "idx < ResolutionInfoSize ds'" by simp_all
  from Suc.prems(1) have here: "GetResolutionInfo ds' idx = GetResolutionInfo ds idx" by simp
  let ?rr = "if matches_target M ds w h fl idx then AddRefreshRate ds rr idx else rr"
  have a: "RefreshRates_loop M ds w h fl idx rr = RefreshRates_loop M ds w h fl (idx + 1) ?rr"
    using il by (subst RefreshRates_loop.simps) (simp add: matches_target_def)
  have b: "RefreshRates_loop M ds' w h fl idx rr = RefreshRates_loop M ds' w h fl (idx + 1) ?rr"
    using il here
    by (subst RefreshRates_loop.simps) (simp add: matches_target_def AddRefreshRate_def)
  have "RefreshRates_loop M ds' w h fl (idx + 1) ?rr = RefreshRates_loop M ds w h fl (idx + 1) ?rr"
  proof (rule Suc.hyps(1))
    show "n = ResolutionInfoSize ds - (idx + 1)" using Suc.hyps(2) by simp
    show "\<forall>i. idx + 1 \<le> i \<longrightarrow> GetResolutionInfo ds' i = GetResolutionInfo ds i"
      using Suc.prems(1) by simp
    show "ResolutionInfoSize ds' = ResolutionInfoSize ds" by (rule Suc.prems(2))
  qed
  with a b show ?case by simp
qed


lemma mset_std_sort_set: "set (std_sort lt xs) = set xs"
  using mset_std_sort [of lt xs] by (metis set_mset_mset)

lemma distinct_map_std_sort:
  "distinct (map f (std_sort lt xs)) \<longleftrightarrow> distinct (map f xs)"
proof -
  have "mset (map f (std_sort lt xs)) = mset (map f xs)"
    by (simp add: mset_std_sort)
  then show ?thesis by (rule mset_eq_imp_distinct_iff)
qed

lemma refresh_rates_example_result:
  "RefreshRates 16 0x19 refresh_rates_example 1920 1080 0 =
     [\<lparr>RefreshRate = 50, REFRESHRATE.ResInfo_Index = 17\<rparr>,
      \<lparr>RefreshRate = 60, REFRESHRATE.ResInfo_Index = 16\<rparr>]"
  by (simp add: RefreshRates_def RefreshRates_loop.simps AddRefreshRate_def
      AddRefreshRate_loop.simps Let_def refresh_rates_example_def std_sort_def
      rrSortPredicate_def)

text \<open>
  Claim C7. The refresh rates in the vector returned by \<open>RefreshRates\<close> are pairwise
  different, and they are exactly the refresh rates of the records at positions from
  \<open>RES_DESKTOP\<close> up to the size of the store whose width, height and masked flags equal
  the target's. Each returned entry carries the index of the first such record with its
  rate. Records before \<open>RES_DESKTOP\<close> are never read: two stores of the same size that
  agree from \<open>RES_DESKTOP\<close> on give the same result.
\<close>

theorem RefreshRates_first_matching_per_rate:
  "distinct (map RefreshRate (RefreshRates RD M ds w h fl))
   \<and> (rate \<in> RefreshRate ` set (RefreshRates RD M ds w h fl) \<longleftrightarrow>
        (\<exists>i. RD \<le> i \<and> i < ResolutionInfoSize ds \<and> matches_target M ds w h fl i
             \<and> fRefreshRate (GetResolutionInfo ds i) = rate))
   \<and> (e \<in> set (RefreshRates RD M ds w h fl) \<longrightarrow>
        (\<exists>i. i < ResolutionInfoSize ds \<and> first_with_rate RD M ds w h fl i
             \<and> RefreshRate e = fRefreshRate (GetResolutionInfo ds i)
             \<and> REFRESHRATE.ResInfo_Index e = word_of_nat i))
   \<and> ((\<forall>i. RD \<le> i \<longrightarrow> GetResolutionInfo ds' i = GetResolutionInfo ds i)
        \<and> ResolutionInfoSize ds' = ResolutionInfoSize ds
      \<longrightarrow> RefreshRates RD M ds' w h fl = RefreshRates RD M ds w h fl)"
proof -
  let ?L = "RefreshRates_loop M ds w h fl RD []"
  let ?R = "RefreshRates RD M ds w h fl"
  let ?n = "ResolutionInfoSize ds"
  have inv: "rr_inv RD M ds w h fl ?n ?L"
    by (rule RefreshRates_loop_rr_inv)
  have set_eq: "set ?R = set ?L"
    by (simp add: RefreshRates_def mset_std_sort_set)
  from inv have d: "distinct (map RefreshRate ?R)"
    unfolding rr_inv_def by (simp add: RefreshRates_def distinct_map_std_sort)
  from inv have src: "\<forall>e. e \<in> set ?R \<longrightarrow>
        (\<exists>i. i < ?n \<and> first_with_rate RD M ds w h fl i
             \<and> RefreshRate e = fRefreshRate (GetResolutionInfo ds i)
             \<and> REFRESHRATE.ResInfo_Index e = word_of_nat i)"
    unfolding rr_inv_def set_eq by blast
  from inv have cov: "\<forall>i. RD \<le> i \<and> i < ?n \<and> matches_target M ds w h fl i
           \<longrightarrow> fRefreshRate (GetResolutionInfo ds i) \<in> RefreshRate ` set ?R"
    unfolding rr_inv_def set_eq by blast
  have rates: "rate \<in> RefreshRate ` set ?R \<longleftrightarrow>
        (\<exists>i. RD \<le> i \<and> i < ?n \<and> matches_target M ds w h fl i
             \<and> fRefreshRate (GetResolutionInfo ds i) = rate)"
  proof
    assume "rate \<in> RefreshRate ` set ?R"
    then obtain e where "e \<in> set ?R" "RefreshRate e = rate" by blast
    with src obtain i where "i < ?n" "first_with_rate RD M ds w h fl i"
        "rate = fRefreshRate (GetResolutionInfo ds i)"
      by metis
    then show "\<exists>i. RD \<le> i \<and> i < ?n \<and> matches_target M ds w h fl i
             \<and> fRefreshRate (GetResolutionInfo ds i) = rate"
      unfolding first_with_rate_def by blast
  next
    assume "\<exists>i. RD \<le> i \<and> i < ?n \<and> matches_target M ds w h fl i
             \<and> fRefreshRate (GetResolutionInfo ds i) = rate"
    with cov show "rate \<in> RefreshRate ` set ?R" by blast
  qed
  have indep: "RefreshRates RD M ds' w h fl = ?R"
    if "(\<forall>i. RD \<le> i \<longrightarrow> GetResolutionInfo ds' i = GetResolutionInfo ds i)
        \<and> ResolutionInfoSize ds' = ResolutionInfoSize ds"
  proof -
    from that have "RefreshRates_loop M ds' w h fl RD [] = RefreshRates_loop M ds w h fl RD []"
      by (intro RefreshRates_loop_cong) simp_all
    then show ?thesis by (simp add: RefreshRates_def)
  qed
  from d rates src indep show ?thesis by blast
qed

theorem RefreshRates_first_matching_per_rate_witness:
  "RefreshRates 16 0x19 refresh_rates_example 1920 1080 0 =
     [\<lparr>RefreshRate = 50, REFRESHRATE.ResInfo_Index = 17\<rparr>,
      \<lparr>RefreshRate = 60, REFRESHRATE.ResInfo_Index = 16\<rparr>]
   \<and> \<lparr>RefreshRate = 60, REFRESHRATE.ResInfo_Index = 16\<rparr>
       \<in> set (RefreshRates 16 0x19 refresh_rates_example 1920 1080 0)
   \<and> (\<exists>i. i < ResolutionInfoSize refresh_rates_example
          \<and> first_with_rate 16 0x19 refresh_rates_example 1920 1080 0 i
          \<and> fRefreshRate (GetResolutionInfo refresh_rates_example i) = 60
          \<and> (word_of_nat i :: c_int) = 16)
   \<and> RefreshRates 16 0x19
        (refresh_rates_example\<lparr>GetResolutionInfo :=
           (GetResolutionInfo refresh_rates_example)
             (0 := \<lparr>iScreenWidth = 1920, iScreenHeight = 1080, dwFlags = 0,
                    fRefreshRate = 30\<rparr>)\<rparr>)
        1920 1080 0
      = RefreshRates 16 0x19 refresh_rates_example 1920 1080 0"
proof -
  let ?ds = refresh_rates_example
  let ?ds' = "refresh_rates_example\<lparr>GetResolutionInfo :=
           (GetResolutionInfo refresh_rates_example)
             (0 := \<lparr>iScreenWidth = 1920, iScreenHeight = 1080, dwFlags = 0,
                    fRefreshRate = 30\<rparr>)\<rparr>"
  let ?e = "\<lparr>RefreshRate = 60, REFRESHRATE.ResInfo_Index = 16\<rparr>"
  note inst = RefreshRates_first_matching_per_rate [of 16 "0x19" ?ds 1920 1080 0 60 ?e ?ds']
  have mem: "?e \<in> set (RefreshRates 16 0x19 ?ds 1920 1080 0)"
    by (simp add: refresh_rates_example_result)
  have same: "(\<forall>i. 16 \<le> i \<longrightarrow> GetResolutionInfo ?ds' i = GetResolutionInfo ?ds i)
        \<and> ResolutionInfoSize ?ds' = ResolutionInfoSize ?ds"
    by simp
  from inst mem have "\<exists>i. i < ResolutionInfoSize ?ds
          \<and> first_with_rate 16 0x19 ?ds 1920 1080 0 i
          \<and> RefreshRate ?e = fRefreshRate (GetResolutionInfo ?ds i)
          \<and> REFRESHRATE.ResInfo_Index ?e = word_of_nat i"
    by blast
  then have a: "\<exists>i. i < ResolutionInfoSize ?ds
          \<and> first_with_rate 16 0x19 ?ds 1920 1080 0 i
          \<and> fRefreshRate (GetResolutionInfo ?ds i) = 60
          \<and> (word_of_nat i :: c_int) = 16"
    by simp
  from inst same have b: "RefreshRates 16 0x19 ?ds' 1920 1080 0
      = RefreshRates 16 0x19 ?ds 1920 1080 0"
    by blast
  from refresh_rates_example_result mem a b show ?thesis by blast
qed

section \<open>Properties of the rounding\<close>

lemma float32_ulp_binade:
  assumes "2 ^ n \<le> \<bar>x\<bar>" and "\<bar>x\<bar> < 2 ^ Suc n" and "n < 23"
  shows "float32_ulp x = 1 / 2 ^ (23 - n)"
proof -
  have "(0::real) < 2 ^ n" by simp
  with assms(1) have pos: "0 < \<bar>x\<bar>" by linarith
  have "(2::real) powr of_int (int n) = 2 ^ n"
    by (simp add: powr_realpow)
  moreover have "(2::real) powr (of_int (int n) + 1) = 2 ^ Suc n"
    using powr_realpow [of 2 "Suc n"] by (simp add: add.commute)
  ultimately have "\<lfloor>log 2 \<bar>x\<bar>\<rfloor> = int n"
    using pos assms(1,2) by (simp add: floor_log_eq_powr_iff)
  moreover have "nat (23 - int n) = 23 - n"
    using assms(3) by simp
  ultimately show ?thesis
    using assms(3) by (simp add: float32_ulp_def Let_def)
qed

lemma round_half_even_of_int: "round_half_even (of_int k) = k"
  by (simp add: round_half_even_def)

lemma float32_round_binade:
  assumes "2 ^ n \<le> \<bar>x\<bar>" and "\<bar>x\<bar> < 2 ^ Suc n" and "n < 23"
  shows "float32_round x = of_int (round_half_even (x * 2 ^ (23 - n))) / 2 ^ (23 - n)"
proof -
  have u: "float32_ulp x = 1 / 2 ^ (23 - n)"
    using assms by (rule float32_ulp_binade)
  have "(0::real) < 2 ^ n" by simp
  with assms(1) have "x \<noteq> 0" by linarith
  then show ?thesis by (simp add: float32_round_def u)
qed

lemma float32_round_exact:
  assumes "2 ^ n \<le> \<bar>x\<bar>" and "\<bar>x\<bar> < 2 ^ Suc n" and "n < 23"
    and "x * 2 ^ (23 - n) = of_int k"
  shows "float32_round x = x"
proof -
  have "float32_round x = of_int (round_half_even (x * 2 ^ (23 - n))) / 2 ^ (23 - n)"
    using assms(1-3) by (rule float32_round_binade)
  also have "\<dots> = of_int k / 2 ^ (23 - n)"
    by (simp only: assms(4) round_half_even_of_int)
  also have "\<dots> = x"
    using assms(4) [symmetric] by simp
  finally show ?thesis .
qed

lemma float32_round_small_integers:
  "float32_round 2 = 2"
  "float32_round (- 2) = - 2"
  "float32_round (- 3) = - 3"
  "float32_round (- 4) = - 4"
proof -
  show "float32_round 2 = 2"
    by (rule float32_round_exact [where n = 1 and k = 8388608]) simp_all
  show "float32_round (- 2) = - 2"
    by (rule float32_round_exact [where n = 1 and k = "- 8388608"]) simp_all
  show "float32_round (- 3) = - 3"
    by (rule float32_round_exact [where n = 1 and k = "- 12582912"]) simp_all
  show "float32_round (- 4) = - 4"
    by (rule float32_round_exact [where n = 2 and k = "- 8388608"]) simp_all
qed

lemma round_half_even_tie: "round_half_even (18886951 / 2) = 9443476"
proof -
  have f: "\<lfloor>18886951 / 2 :: real\<rfloor> = 9443475" by simp
  show ?thesis
    unfolding round_half_even_def Let_def f by simp
qed

lemma float32_round_60_minus_96: "float32_round (- (2360869 / 65536)) = - (2360869 / 65536)"
  by (rule float32_round_exact [where n = 5 and k = "- 9443476"]) simp_all

lemma float32_round_60_minus_24: "float32_round (18886951 / 524288) = 2360869 / 65536"
proof -
  have "float32_round (18886951 / 524288) =
      of_int (round_half_even (18886951 / 524288 * 2 ^ (23 - 5))) / 2 ^ (23 - 5)"
    by (rule float32_round_binade) simp_all
  also have "18886951 / 524288 * 2 ^ (23 - 5) = (18886951 / 2 :: real)"
    by simp
  also have "of_int (round_half_even (18886951 / 2)) / 2 ^ (23 - 5) = (2360869 / 65536 :: real)"
    unfolding round_half_even_tie by simp
  finally show ?thesis .
qed

section \<open>Properties of the refresh rate selection\<close>

lemma fitness_of_nonneg: "0 \<le> fitness_of t r"
  by (simp add: fitness_of_def)

lemma first_best_extend:
  assumes "first_best t rates i k" and "fitness_of t (rates ! k) \<le> fitness_of t (rates ! i)"
  shows "first_best t rates (i + 1) k"
  using assms unfolding first_best_def
  by (auto simp: less_Suc_eq)

lemma first_best_new:
  assumes "\<forall>j. j < i \<longrightarrow> fitness_of t (rates ! i) < fitness_of t (rates ! j)"
  shows "first_best t rates (i + 1) i"
  using assms unfolding first_best_def
  by (auto simp: less_Suc_eq less_imp_le)

lemma DefaultRefreshRate_loop_first_best:
  assumes "i \<le> length rates"
    and "(i = 0 \<and> bf < 0 \<and> rates \<noteq> [])
         \<or> (\<exists>k. first_best t rates i k \<and> bm = rates ! k \<and> bf = fitness_of t (rates ! k))"
  shows "\<exists>k. first_best t rates (length rates) k
            \<and> DefaultRefreshRate_loop t rates i bm bf = rates ! k"
  using assms
proof (induction "length rates - i" arbitrary: i bm bf)
  case 0
  then have il: "i = length rates" by simp
  then have r: "DefaultRefreshRate_loop t rates i bm bf = bm"
    by (subst DefaultRefreshRate_loop.simps) simp
  from "0.prems"(2) il obtain k where
    "first_best t rates i k \<and> bm = rates ! k \<and> bf = fitness_of t (rates ! k)"
    by auto
  with il r show ?case by auto
next
  case (Suc n)
  then have il: "i < length rates" by simp
  let ?f = "fitness_of t (rates ! i)"
  have prev: "\<exists>k. first_best t rates i k \<and> bm = rates ! k \<and> bf = fitness_of t (rates ! k)"
    if "i \<noteq> 0 \<or> \<not> bf < 0"
    using Suc.prems(2) that by auto
  have beats: "\<forall>j. j < i \<longrightarrow> ?f < fitness_of t (rates ! j)" if c: "bf < 0 \<or> ?f < bf"
  proof (cases "i = 0")
    case True
    then show ?thesis by simp
  next
    case False
    with prev obtain k where k: "first_best t rates i k" "bf = fitness_of t (rates ! k)"
      by blast
    then have "\<not> bf < 0" using fitness_of_nonneg [of t "rates ! k"] by simp
    with c have "?f < fitness_of t (rates ! k)" using k by simp
    moreover have "\<forall>j. j < i \<longrightarrow> fitness_of t (rates ! k) \<le> fitness_of t (rates ! j)"
      using k(1) unfolding first_best_def by blast
    ultimately show ?thesis by force
  qed
  show ?case
  proof (cases "bf < 0 \<or> ?f < bf")
    case c: True
    have fb: "first_best t rates (i + 1) i"
      using beats [OF c] by (rule first_best_new)
    show ?thesis
    proof (cases "?f = 0")
      case True
      have r: "DefaultRefreshRate_loop t rates i bm bf = rates ! i"
        using il c True
        by (subst DefaultRefreshRate_loop.simps) (auto simp: fitness_of_def Let_def)
      have "first_best t rates (length rates) i"
        unfolding first_best_def
        using il True beats [OF c] fitness_of_nonneg [of t] by simp
      with r show ?thesis by blast
    next
      case False
      have r: "DefaultRefreshRate_loop t rates i bm bf =
          DefaultRefreshRate_loop t rates (i + 1) (rates ! i) ?f"
        using il c False
        by (subst DefaultRefreshRate_loop.simps) (auto simp: fitness_of_def Let_def)
      have "\<exists>k. first_best t rates (length rates) k
            \<and> DefaultRefreshRate_loop t rates (i + 1) (rates ! i) ?f = rates ! k"
      proof (rule Suc.hyps(1))
        show "n = length rates - (i + 1)" using Suc.hyps(2) by simp
        show "i + 1 \<le> length rates" using il by simp
        show "(i + 1 = 0 \<and> ?f < 0 \<and> rates \<noteq> [])
         \<or> (\<exists>k. first_best t rates (i + 1) k \<and> rates ! i = rates ! k
                \<and> ?f = fitness_of t (rates ! k))"
          using fb by blast
      qed
      with r show ?thesis by simp
    qed
  next
    case c: False
    then have nb: "\<not> bf < 0" and nf: "\<not> ?f < bf" by simp_all
    from prev nb obtain k where k: "first_best t rates i k" "bm = rates ! k"
        "bf = fitness_of t (rates ! k)"
      by blast
    have r: "DefaultRefreshRate_loop t rates i bm bf =
          DefaultRefreshRate_loop t rates (i + 1) bm bf"
      using il nb nf
      by (subst DefaultRefreshRate_loop.simps) (auto simp: fitness_of_def Let_def)
    have fb: "first_best t rates (i + 1) k"
      using k(1) nf k(3) by (intro first_best_extend) simp_all
    have "\<exists>k. first_best t rates (length rates) k
            \<and> DefaultRefreshRate_loop t rates (i + 1) bm bf = rates ! k"
    proof (rule Suc.hyps(1))
      show "n = length rates - (i + 1)" using Suc.hyps(2) by simp
      show "i + 1 \<le> length rates" using il by simp
      show "(i + 1 = 0 \<and> bf < 0 \<and> rates \<noteq> [])
         \<or> (\<exists>k. first_best t rates (i + 1) k \<and> bm = rates ! k
                \<and> bf = fitness_of t (rates ! k))"
        using fb k by blast
    qed
    with r show ?thesis by simp
  qed
qed



lemma DefaultRefreshRate_50_55:
  "DefaultRefreshRate RD desktop_52
     [\<lparr>RefreshRate = 50, REFRESHRATE.ResInfo_Index = a\<rparr>,
      \<lparr>RefreshRate = 55, REFRESHRATE.ResInfo_Index = b\<rparr>]
   = Inr \<lparr>RefreshRate = 50, REFRESHRATE.ResInfo_Index = a\<rparr>"
  by (simp add: DefaultRefreshRate_def DefaultRefreshRate_loop.simps desktop_52_def Let_def
      float32_round_small_integers)

lemma DefaultRefreshRate_96_24:
  "DefaultRefreshRate 16 desktop_60
     [\<lparr>RefreshRate = 6293029 / 65536, REFRESHRATE.ResInfo_Index = 17\<rparr>,
      \<lparr>RefreshRate = 12570329 / 524288, REFRESHRATE.ResInfo_Index = 18\<rparr>]
   = Inr \<lparr>RefreshRate = 6293029 / 65536, REFRESHRATE.ResInfo_Index = 17\<rparr>"
  by (simp add: DefaultRefreshRate_def DefaultRefreshRate_loop.simps desktop_60_def Let_def
      float32_round_60_minus_96 float32_round_60_minus_24)

text \<open>
  Claim C5, as stated, fails. Take the target 60 Hz and the entries 96.024 Hz and
  23.976 Hz, as the \<open>float\<close> values \<open>6293029 / 65536\<close> and \<open>12570329 / 524288\<close>. The second
  entry is strictly nearer to the target, but its difference \<open>18886951 / 524288\<close> lies
  midway between two \<open>float\<close> values and rounds to \<open>2360869 / 65536\<close>, the difference of
  the first entry. The loop sees equal fitness and returns the first entry.
\<close>

theorem DefaultRefreshRate_rounding_counterexample:
  "DefaultRefreshRate 16 desktop_60
     [\<lparr>RefreshRate = 6293029 / 65536, REFRESHRATE.ResInfo_Index = 17\<rparr>,
      \<lparr>RefreshRate = 12570329 / 524288, REFRESHRATE.ResInfo_Index = 18\<rparr>]
   = Inr \<lparr>RefreshRate = 6293029 / 65536, REFRESHRATE.ResInfo_Index = 17\<rparr>
   \<and> fRefreshRate (GetResolutionInfo desktop_60 16) = 60
   \<and> \<bar>60 - 12570329 / 524288 :: real\<bar> < \<bar>60 - 6293029 / 65536\<bar>"
proof (intro conjI)
  show "DefaultRefreshRate 16 desktop_60
     [\<lparr>RefreshRate = 6293029 / 65536, REFRESHRATE.ResInfo_Index = 17\<rparr>,
      \<lparr>RefreshRate = 12570329 / 524288, REFRESHRATE.ResInfo_Index = 18\<rparr>]
   = Inr \<lparr>RefreshRate = 6293029 / 65536, REFRESHRATE.ResInfo_Index = 17\<rparr>"
    by (rule DefaultRefreshRate_96_24)
  show "fRefreshRate (GetResolutionInfo desktop_60 16) = 60"
    by (simp add: desktop_60_def)
  show "\<bar>60 - 12570329 / 524288 :: real\<bar> < \<bar>60 - 6293029 / 65536\<bar>"
    by simp
qed

text \<open>
  Claim C5, amended. On a non-empty vector \<open>DefaultRefreshRate\<close> returns the entry at a
  position \<open>k\<close> whose computed fitness, the absolute value of the difference
  \<open>targetfps - RefreshRate\<close> rounded to \<open>float\<close>, is least over the whole vector and
  strictly less than the computed fitness of every earlier entry: the first entry of least
  computed fitness. The target is the refresh rate of the record at \<open>RES_DESKTOP\<close>. With
  the entries 50 and 55 and the target 52 it returns the entry 50.
\<close>

theorem DefaultRefreshRate_first_least_rounded_fitness:
  "(rates \<noteq> [] \<longrightarrow>
      (\<exists>k. k < length rates
         \<and> DefaultRefreshRate RD ds rates = Inr (rates ! k)
         \<and> (\<forall>j. j < length rates \<longrightarrow>
               fitness_of (fRefreshRate (GetResolutionInfo ds RD)) (rates ! k)
               \<le> fitness_of (fRefreshRate (GetResolutionInfo ds RD)) (rates ! j))
         \<and> (\<forall>j. j < k \<longrightarrow>
               fitness_of (fRefreshRate (GetResolutionInfo ds RD)) (rates ! k)
               < fitness_of (fRefreshRate (GetResolutionInfo ds RD)) (rates ! j))))
   \<and> fitness_of t r = \<bar>float32_round (t - RefreshRate r)\<bar>
   \<and> DefaultRefreshRate RD desktop_52
        [\<lparr>RefreshRate = 50, REFRESHRATE.ResInfo_Index = a\<rparr>,
         \<lparr>RefreshRate = 55, REFRESHRATE.ResInfo_Index = b\<rparr>]
      = Inr \<lparr>RefreshRate = 50, REFRESHRATE.ResInfo_Index = a\<rparr>
   \<and> fRefreshRate (GetResolutionInfo desktop_52 RD) = 52"
proof (intro conjI impI)
  let ?t = "fRefreshRate (GetResolutionInfo ds RD)"
  assume ne: "rates \<noteq> []"
  then obtain x xs where rates: "rates = x # xs" by (cases rates) simp_all
  have "\<exists>k. first_best ?t rates (length rates) k
            \<and> DefaultRefreshRate_loop ?t rates 0 x (- 1) = rates ! k"
    using ne by (intro DefaultRefreshRate_loop_first_best) simp_all
  then obtain k where k: "first_best ?t rates (length rates) k"
      "DefaultRefreshRate_loop ?t rates 0 x (- 1) = rates ! k"
    by blast
  have "DefaultRefreshRate RD ds rates = Inr (rates ! k)"
    using k(2) by (simp add: DefaultRefreshRate_def rates)
  with k(1) show "\<exists>k. k < length rates
         \<and> DefaultRefreshRate RD ds rates = Inr (rates ! k)
         \<and> (\<forall>j. j < length rates \<longrightarrow>
               fitness_of ?t (rates ! k) \<le> fitness_of ?t (rates ! j))
         \<and> (\<forall>j. j < k \<longrightarrow> fitness_of ?t (rates ! k) < fitness_of ?t (rates ! j))"
    unfolding first_best_def by blast
next
  show "fitness_of t r = \<bar>float32_round (t - RefreshRate r)\<bar>"
    by (simp add: fitness_of_def)
next
  show "DefaultRefreshRate RD desktop_52
        [\<lparr>RefreshRate = 50, REFRESHRATE.ResInfo_Index = a\<rparr>,
         \<lparr>RefreshRate = 55, REFRESHRATE.ResInfo_Index = b\<rparr>]
      = Inr \<lparr>RefreshRate = 50, REFRESHRATE.ResInfo_Index = a\<rparr>"
    by (rule DefaultRefreshRate_50_55)
next
  show "fRefreshRate (GetResolutionInfo desktop_52 RD) = 52"
    by (simp add: desktop_52_def)
qed

theorem DefaultRefreshRate_first_least_rounded_fitness_witness:
  "[\<lparr>RefreshRate = 54, REFRESHRATE.ResInfo_Index = 18\<rparr>,
    \<lparr>RefreshRate = 50, REFRESHRATE.ResInfo_Index = 19\<rparr>,
    \<lparr>RefreshRate = 56, REFRESHRATE.ResInfo_Index = 20\<rparr>] \<noteq> []
   \<and> (\<exists>k. k < length
          [\<lparr>RefreshRate = 54, REFRESHRATE.ResInfo_Index = 18\<rparr>,
           \<lparr>RefreshRate = 50, REFRESHRATE.ResInfo_Index = 19\<rparr>,
           \<lparr>RefreshRate = 56, REFRESHRATE.ResInfo_Index = 20\<rparr>]
        \<and> DefaultRefreshRate 16 desktop_52
          [\<lparr>RefreshRate = 54, REFRESHRATE.ResInfo_Index = 18\<rparr>,
           \<lparr>RefreshRate = 50, REFRESHRATE.ResInfo_Index = 19\<rparr>,
           \<lparr>RefreshRate = 56, REFRESHRATE.ResInfo_Index = 20\<rparr>]
          = Inr ([\<lparr>RefreshRate = 54, REFRESHRATE.ResInfo_Index = 18\<rparr>,
           \<lparr>RefreshRate = 50, REFRESHRATE.ResInfo_Index = 19\<rparr>,
           \<lparr>RefreshRate = 56, REFRESHRATE.ResInfo_Index = 20\<rparr>] ! k))
   \<and> DefaultRefreshRate 16 desktop_52
          [\<lparr>RefreshRate = 54, REFRESHRATE.ResInfo_Index = 18\<rparr>,
           \<lparr>RefreshRate = 50, REFRESHRATE.ResInfo_Index = 19\<rparr>,
           \<lparr>RefreshRate = 56, REFRESHRATE.ResInfo_Index = 20\<rparr>]
       = Inr \<lparr>RefreshRate = 54, REFRESHRATE.ResInfo_Index = 18\<rparr>
   \<and> DefaultRefreshRate 16 desktop_52
        [\<lparr>RefreshRate = 50, REFRESHRATE.ResInfo_Index = 18\<rparr>,
         \<lparr>RefreshRate = 55, REFRESHRATE.ResInfo_Index = 19\<rparr>]
      = Inr \<lparr>RefreshRate = 50, REFRESHRATE.ResInfo_Index = 18\<rparr>"
proof -
  let ?rates = "[\<lparr>RefreshRate = 54, REFRESHRATE.ResInfo_Index = 18\<rparr>,
           \<lparr>RefreshRate = 50, REFRESHRATE.ResInfo_Index = 19\<rparr>,
           \<lparr>RefreshRate = 56, REFRESHRATE.ResInfo_Index = 20\<rparr>]"
  have ne: "?rates \<noteq> []" by simp
  note inst = DefaultRefreshRate_first_least_rounded_fitness [of ?rates 16 desktop_52 0 "\<lparr>RefreshRate = 0, REFRESHRATE.ResInfo_Index = 0\<rparr>" 18 19]
  from inst ne have ex: "\<exists>k. k < length ?rates
      \<and> DefaultRefreshRate 16 desktop_52 ?rates = Inr (?rates ! k)"
    by blast
  from inst have ex2: "DefaultRefreshRate 16 desktop_52
        [\<lparr>RefreshRate = 50, REFRESHRATE.ResInfo_Index = 18\<rparr>,
         \<lparr>RefreshRate = 55, REFRESHRATE.ResInfo_Index = 19\<rparr>]
      = Inr \<lparr>RefreshRate = 50, REFRESHRATE.ResInfo_Index = 18\<rparr>"
    by blast
  have ev: "DefaultRefreshRate 16 desktop_52 ?rates
       = Inr \<lparr>RefreshRate = 54, REFRESHRATE.ResInfo_Index = 18\<rparr>"
    by (simp add: DefaultRefreshRate_def DefaultRefreshRate_loop.simps desktop_52_def Let_def
        float32_round_small_integers)
  from ne ex ev ex2 show ?thesis by blast
qed

text \<open>
  Claim C6, as stated, fails: on the empty vector the call does not end with an
  \<open>InvalidArgument\<close> failure; the read \<open>rates[0]\<close> is outside the vector and the behaviour
  is undefined.
\<close>

theorem DefaultRefreshRate_empty_counterexample:
  "DefaultRefreshRate 16 desktop_52 [] = Inl UndefinedBehaviour
   \<and> DefaultRefreshRate 16 desktop_52 [] \<noteq> Inl (Thrown ''InvalidArgument'')"
  by (simp add: DefaultRefreshRate_def)

text \<open>
  Claim C6, amended. \<open>DefaultRefreshRate\<close> has the precondition that its vector is not
  empty and does not test it: on the empty vector its behaviour is undefined, by the read
  \<open>rates[0]\<close>. It never throws, and it returns an entry exactly when the vector is not
  empty.
\<close>

theorem DefaultRefreshRate_empty_undefined:
  "DefaultRefreshRate RD ds [] = Inl UndefinedBehaviour
   \<and> DefaultRefreshRate RD ds rates \<noteq> Inl (Thrown e)
   \<and> ((\<exists>r. DefaultRefreshRate RD ds rates = Inr r) \<longleftrightarrow> rates \<noteq> [])"
  by (cases rates) (simp_all add: DefaultRefreshRate_def)

section \<open>Properties of the render loop\<close>

lemma emit_simps:
  "events (emit e s) = events s @ [e]"
  "m_renderLoopClients (emit e s) = m_renderLoopClients s"
  by (simp_all add: emit_def)

lemma DriveRenderLoop_loop_events:
  "events (DriveRenderLoop_loop cs s) = events s @ map EvFrameMove cs"
  by (induction cs arbitrary: s) (simp_all add: emit_simps)

lemma DriveRenderLoop_loop_clients:
  "m_renderLoopClients (DriveRenderLoop_loop cs s) = m_renderLoopClients s"
  by (induction cs arbitrary: s) (simp_all add: emit_simps)

lemma DriveRenderLoop_events:
  "events (DriveRenderLoop s) =
     events s @ [EvMessagePump, EvLock] @ map EvFrameMove (m_renderLoopClients s) @ [EvUnlock]"
  by (simp add: DriveRenderLoop_def Let_def emit_simps DriveRenderLoop_loop_events)

lemma DriveRenderLoop_clients:
  "m_renderLoopClients (DriveRenderLoop s) = m_renderLoopClients s"
  by (simp add: DriveRenderLoop_def Let_def emit_simps DriveRenderLoop_loop_clients)

lemma RegisterRenderLoop_clients:
  "m_renderLoopClients (RegisterRenderLoop c s) = m_renderLoopClients s @ [c]"
  by (simp add: RegisterRenderLoop_def Let_def emit_simps)

lemma RegisterRenderLoop_events:
  "events (RegisterRenderLoop c s) = events s @ [EvLock, EvUnlock]"
  by (simp add: RegisterRenderLoop_def Let_def emit_simps)

lemma filter_is_call_FrameMove: "filter is_call (map EvFrameMove cs) = map EvFrameMove cs"
  by (induction cs) simp_all

lemma count_FrameMove:
  "count_list (map EvFrameMove cs) (EvFrameMove c) = count_list cs c"
  by (induction cs) simp_all

lemma held_after_append: "held_after n (xs @ ys) = held_after (held_after n xs) ys"
proof (induction xs arbitrary: n)
  case Nil
  show ?case by simp
next
  case (Cons e es)
  then show ?case by (cases e) simp_all
qed

lemma held_after_FrameMoves: "held_after n (map EvFrameMove cs) = n"
  by (induction cs) simp_all

text \<open>
  Claim C8. From every state, one call of \<open>DriveRenderLoop\<close> appends to the log exactly
  one \<open>MessagePump\<close> call first and then one \<open>FrameMove\<close> call for each element of
  \<open>m_renderLoopClients\<close>, in the order of the vector (with the lock taken in between and
  released at the end); a client is driven as many times as it occurs in the vector, and
  the vector is left as it was. \<open>RegisterRenderLoop\<close> appends its client at the end of the
  vector, so after registering \<open>a\<close> then \<open>b\<close> the calls are \<open>MessagePump\<close>,
  \<open>a->FrameMove()\<close>, \<open>b->FrameMove()\<close>, and after registering \<open>a\<close> twice \<open>a\<close> is driven
  twice.
\<close>

theorem DriveRenderLoop_drives_clients_in_order:
  "events (DriveRenderLoop s) =
     events s @ [EvMessagePump, EvLock] @ map EvFrameMove (m_renderLoopClients s) @ [EvUnlock]
   \<and> filter is_call (drop (length (events s)) (events (DriveRenderLoop s))) =
       EvMessagePump # map EvFrameMove (m_renderLoopClients s)
   \<and> count_list (drop (length (events s)) (events (DriveRenderLoop s))) (EvFrameMove c) =
       count_list (m_renderLoopClients s) c
   \<and> m_renderLoopClients (DriveRenderLoop s) = m_renderLoopClients s
   \<and> m_renderLoopClients (RegisterRenderLoop c s) = m_renderLoopClients s @ [c]
   \<and> filter is_call (events (DriveRenderLoop (RegisterRenderLoop b (RegisterRenderLoop a
         \<lparr>m_renderLoopClients = [], events = []\<rparr>)))) =
       [EvMessagePump, EvFrameMove a, EvFrameMove b]
   \<and> filter is_call (events (DriveRenderLoop (RegisterRenderLoop a (RegisterRenderLoop a
         \<lparr>m_renderLoopClients = [], events = []\<rparr>)))) =
       [EvMessagePump, EvFrameMove a, EvFrameMove a]"
  by (simp add: DriveRenderLoop_events DriveRenderLoop_clients RegisterRenderLoop_clients
      RegisterRenderLoop_events filter_is_call_FrameMove count_FrameMove)

text \<open>
  Claim C10, as stated, fails: with one registered client, the third entry of the log of
  \<open>DriveRenderLoop\<close> is that client's \<open>FrameMove\<close>, and the lock is held at that moment.
\<close>

theorem DriveRenderLoop_lock_held_counterexample:
  "events (DriveRenderLoop \<lparr>m_renderLoopClients = [7::nat], events = []\<rparr>) ! 2 = EvFrameMove 7
   \<and> lock_held_at (events (DriveRenderLoop \<lparr>m_renderLoopClients = [7::nat], events = []\<rparr>)) 2"
  by (simp add: DriveRenderLoop_events lock_held_at_def)

text \<open>
  Claim C10, amended. \<open>DriveRenderLoop\<close> calls \<open>MessagePump\<close> before it takes the lock
  (as many locks are held then as before the call); it then takes the lock on
  \<open>m_renderLoopSection\<close> and keeps it over the whole iteration, so the lock is held at
  every \<open>FrameMove\<close> call; and it has released the lock when it returns.
\<close>

theorem DriveRenderLoop_holds_lock_during_FrameMove:
  "events (DriveRenderLoop s) ! length (events s) = EvMessagePump
   \<and> held_after 0 (take (length (events s)) (events (DriveRenderLoop s))) =
       held_after 0 (events s)
   \<and> (j < length (m_renderLoopClients s) \<longrightarrow>
        events (DriveRenderLoop s) ! (length (events s) + 2 + j) =
          EvFrameMove (m_renderLoopClients s ! j)
        \<and> lock_held_at (events (DriveRenderLoop s)) (length (events s) + 2 + j))
   \<and> held_after 0 (events (DriveRenderLoop s)) = held_after 0 (events s)"
proof -
  let ?cs = "m_renderLoopClients s"
  have ev: "events (DriveRenderLoop s) =
     events s @ [EvMessagePump, EvLock] @ map EvFrameMove ?cs @ [EvUnlock]"
    by (rule DriveRenderLoop_events)
  have a: "events (DriveRenderLoop s) ! length (events s) = EvMessagePump"
    by (simp add: ev nth_append)
  have b: "held_after 0 (take (length (events s)) (events (DriveRenderLoop s))) =
      held_after 0 (events s)"
    by (simp add: ev)
  have d: "held_after 0 (events (DriveRenderLoop s)) = held_after 0 (events s)"
    by (simp add: ev held_after_append held_after_FrameMoves)
  have c: "events (DriveRenderLoop s) ! (length (events s) + 2 + j) = EvFrameMove (?cs ! j)
        \<and> lock_held_at (events (DriveRenderLoop s)) (length (events s) + 2 + j)"
    if j: "j < length ?cs"
  proof
    show "events (DriveRenderLoop s) ! (length (events s) + 2 + j) = EvFrameMove (?cs ! j)"
      using j by (simp add: ev nth_append)
    have "take (length (events s) + 2 + j) (events (DriveRenderLoop s)) =
        events s @ [EvMessagePump, EvLock] @ map EvFrameMove (take j ?cs)"
      using j by (simp add: ev take_map)
    then show "lock_held_at (events (DriveRenderLoop s)) (length (events s) + 2 + j)"
      by (simp add: lock_held_at_def held_after_append held_after_FrameMoves)
  qed
  from a b c d show ?thesis by blast
qed

theorem DriveRenderLoop_holds_lock_during_FrameMove_witness:
  "(0::nat) < length (m_renderLoopClients \<lparr>m_renderLoopClients = [7::nat, 9], events = []\<rparr>)
   \<and> events (DriveRenderLoop \<lparr>m_renderLoopClients = [7::nat, 9], events = []\<rparr>) ! 0
       = EvMessagePump
   \<and> events (DriveRenderLoop \<lparr>m_renderLoopClients = [7::nat, 9], events = []\<rparr>) ! 2
       = EvFrameMove 7
   \<and> lock_held_at (events (DriveRenderLoop \<lparr>m_renderLoopClients = [7::nat, 9], events = []\<rparr>)) 2
   \<and> held_after 0 (events (DriveRenderLoop \<lparr>m_renderLoopClients = [7::nat, 9], events = []\<rparr>))
       = 0"
  using DriveRenderLoop_holds_lock_during_FrameMove
    [of "\<lparr>m_renderLoopClients = [7::nat, 9], events = []\<rparr>" 0]
  by (simp add: numeral_2_eq_2)

section \<open>Properties of the HDR status\<close>

text \<open>
  Claim C9, as stated, fails: a query in which every platform call fails returns the same
  status as a successful query answered with \<open>0xD0\<close> ("display is not HDR capable"), and
  so does a successful query answered with the unrecognised code \<open>0xD2\<close>. There is no
  status of its own for a failed or unrecognised answer.
\<close>

theorem GetHDRDisplayStatus_unknown_counterexample:
  "GetHDRDisplayStatus
     \<lparr>GetDisplayConfigBufferSizes_success = False, pathsArray_nonnull = False,
      modesArray_nonnull = False, QueryDisplayConfig_success = False,
      DisplayConfigGetDeviceInfo_success = False, request_20 = 0xDB\<rparr>
   = GetHDRDisplayStatus
     \<lparr>GetDisplayConfigBufferSizes_success = True, pathsArray_nonnull = True,
      modesArray_nonnull = True, QueryDisplayConfig_success = True,
      DisplayConfigGetDeviceInfo_success = True, request_20 = 0xD0\<rparr>
   \<and> GetHDRDisplayStatus
     \<lparr>GetDisplayConfigBufferSizes_success = True, pathsArray_nonnull = True,
      modesArray_nonnull = True, QueryDisplayConfig_success = True,
      DisplayConfigGetDeviceInfo_success = True, request_20 = 0xD2\<rparr>
   = GetHDRDisplayStatus
     \<lparr>GetDisplayConfigBufferSizes_success = True, pathsArray_nonnull = True,
      modesArray_nonnull = True, QueryDisplayConfig_success = True,
      DisplayConfigGetDeviceInfo_success = True, request_20 = 0xD0\<rparr>"
  by (simp add: GetHDRDisplayStatus_def)

text \<open>
  Claim C9, amended. \<open>GetHDRDisplayStatus\<close> always returns one of 0, 1 and 2. When a
  platform call does not succeed, or an allocation fails, it returns 0. When all succeed
  it returns 1 for the code \<open>0xD1\<close>, 2 for the code \<open>0xD3\<close> and 0 for every other code:
  for \<open>0xD0\<close> ("not HDR capable") and for every unrecognised one alike.
\<close>

theorem GetHDRDisplayStatus_values:
  "(\<not> (GetDisplayConfigBufferSizes_success p \<and> pathsArray_nonnull p \<and> modesArray_nonnull p
        \<and> QueryDisplayConfig_success p \<and> DisplayConfigGetDeviceInfo_success p)
      \<longrightarrow> GetHDRDisplayStatus p = 0)
   \<and> (GetDisplayConfigBufferSizes_success p \<and> pathsArray_nonnull p \<and> modesArray_nonnull p
        \<and> QueryDisplayConfig_success p \<and> DisplayConfigGetDeviceInfo_success p
      \<longrightarrow> GetHDRDisplayStatus p =
            (if request_20 p = 0xD1 then 1 else if request_20 p = 0xD3 then 2 else 0))
   \<and> (GetHDRDisplayStatus p = 0 \<or> GetHDRDisplayStatus p = 1 \<or> GetHDRDisplayStatus p = 2)"
  by (simp add: GetHDRDisplayStatus_def)

theorem GetHDRDisplayStatus_values_witness:
  "GetHDRDisplayStatus
     \<lparr>GetDisplayConfigBufferSizes_success = True, pathsArray_nonnull = True,
      modesArray_nonnull = True, QueryDisplayConfig_success = False,
      DisplayConfigGetDeviceInfo_success = False, request_20 = 0xDB\<rparr> = 0
   \<and> GetHDRDisplayStatus
     \<lparr>GetDisplayConfigBufferSizes_success = True, pathsArray_nonnull = True,
      modesArray_nonnull = True, QueryDisplayConfig_success = True,
      DisplayConfigGetDeviceInfo_success = True, request_20 = 0xD3\<rparr> = 2
   \<and> GetHDRDisplayStatus
     \<lparr>GetDisplayConfigBufferSizes_success = True, pathsArray_nonnull = True,
      modesArray_nonnull = True, QueryDisplayConfig_success = True,
      DisplayConfigGetDeviceInfo_success = True, request_20 = 0x17\<rparr> = 0"
  using GetHDRDisplayStatus_values
    [of "\<lparr>GetDisplayConfigBufferSizes_success = True, pathsArray_nonnull = True,
      modesArray_nonnull = True, QueryDisplayConfig_success = False,
      DisplayConfigGetDeviceInfo_success = False, request_20 = 0xDB\<rparr>"]
    GetHDRDisplayStatus_values
    [of "\<lparr>GetDisplayConfigBufferSizes_success = True, pathsArray_nonnull = True,
      modesArray_nonnull = True, QueryDisplayConfig_success = True,
      DisplayConfigGetDeviceInfo_success = True, request_20 = 0xD3\<rparr>"]
    GetHDRDisplayStatus_values
    [of "\<lparr>GetDisplayConfigBufferSizes_success = True, pathsArray_nonnull = True,
      modesArray_nonnull = True, QueryDisplayConfig_success = True,
      DisplayConfigGetDeviceInfo_success = True, request_20 = 0x17\<rparr>"]
  by simp

end
